theory Spec2Isabelle
  imports Main
begin

section \<open>Data of github_pr_notifier.py\<close>

text \<open>
  The dataclass \<open>PREvent\<close> (lines 45-52). Characters of a \<open>string\<close> stand for the
  characters of a Python \<open>str\<close>, so \<open>length\<close> is Python's \<open>len\<close>.
\<close>

record PREvent =
  pr_number :: int
  event_type :: string
  author :: string
  created_at :: string
  body :: "string option"

text \<open>
  The exceptions that the monitoring code raises or handles. The first three are the
  ones caught at line 191; \<open>ValueError\<close> is what \<open>datetime.fromisoformat\<close> raises on a
  string that is no ISO date, \<open>TypeError\<close> is what comparing an offset-naive with an
  offset-aware datetime raises. Neither of the last two is caught below \<open>run\<close>.
\<close>

datatype exn = CalledProcessError | JSONDecodeError | KeyError | ValueError | TypeError

text \<open>
  The outcome of \<open>subprocess.run(..., check=True)\<close> followed by \<open>json.loads\<close>: the
  process failed, its output was no JSON, or the decoded value.
\<close>

datatype 'a gh_result = ProcessFailed | BadJSON | Decoded 'a

text \<open>
  The decoded JSON objects. A field is \<open>None\<close> when the key is absent from the
  dictionary, so that reading it with \<open>d['key']\<close> raises \<open>KeyError\<close>. For the author,
  \<open>None\<close> is a record without \<open>'author'\<close> and \<open>Some None\<close> an author object without
  \<open>'login'\<close>.
\<close>

record raw_comment =
  c_createdAt :: "string option"
  c_author :: "string option option"
  c_id :: "string option"
  c_body :: "string option"

record raw_review =
  r_state :: "string option"
  r_submittedAt :: "string option"
  r_author :: "string option option"
  r_id :: "string option"
  r_body :: "string option"

record search_item =
  i_number :: "int option"
  i_title :: "string option"
  i_repository :: "string option option"
  i_url :: "string option"

text \<open>The dictionaries that \<open>get_user_prs\<close> builds (lines 120-125).\<close>

record pr =
  number :: int
  title :: string
  repository :: string
  url :: string

text \<open>
  A \<open>datetime\<close> is offset-naive or offset-aware; an aware one is the instant it denotes,
  in microseconds since the epoch. \<open>datetime.fromisoformat\<close> is a library function and a
  parameter \<open>fromiso\<close> of the model: \<open>None\<close> is its \<open>ValueError\<close>.
\<close>

datatype pydatetime = Naive int | Aware int

type_synonym isoparser = "string \<Rightarrow> pydatetime option"

datatype device = Blink1 string

text \<open>The fields of \<open>GitHubPRMonitor\<close> (lines 58-71).\<close>

record monitor =
  username :: string
  poll_interval :: int
  test_mode :: bool
  processed_events :: "string set"
  last_check :: int
  blink1 :: "device option"

text \<open>
  What the outside world answers during one call of \<open>check_for_updates\<close>: the output of
  \<open>gh search prs\<close>, of the two \<open>gh pr view\<close> calls for a repository and a number, whether
  \<open>play_pattern\<close> raises at the k-th flash of the cycle, and the clock read at line 250.
\<close>

record gh_env =
  search_prs :: "search_item list gh_result"
  view_comments :: "string \<Rightarrow> int \<Rightarrow> raw_comment list option gh_result"
  view_reviews :: "string \<Rightarrow> int \<Rightarrow> raw_review list option gh_result"
  play_pattern_raises :: "nat \<Rightarrow> bool"
  now :: int

text \<open>
  An appended \<open>PREvent\<close> is kept together with the \<open>event_id\<close> computed for it (lines 149
  and 173), the string that the source adds to \<open>processed_events\<close> right after the
  append. The list of the source is \<open>map snd\<close> of the list of the model.
\<close>

type_synonym tagged = "string \<times> PREvent"

section \<open>Helpers of the Python semantics\<close>

definition bind_exn :: "exn + 'a \<Rightarrow> ('a \<Rightarrow> exn + 'b) \<Rightarrow> exn + 'b" where
  "bind_exn x f = (case x of Inl e \<Rightarrow> Inl e | Inr v \<Rightarrow> f v)"

text \<open>\<open>d['key']\<close>\<close>

definition getitem :: "'a option \<Rightarrow> exn + 'a" where
  "getitem v = (case v of None \<Rightarrow> Inl KeyError | Some x \<Rightarrow> Inr x)"

text \<open>\<open>record['author']['login']\<close>\<close>

definition author_login :: "string option option \<Rightarrow> exn + string" where
  "author_login a = bind_exn (getitem a) getitem"

text \<open>\<open>s.replace('Z', '+00:00')\<close>\<close>

definition replace_Z :: "string \<Rightarrow> string" where
  "replace_Z s = concat (map (\<lambda>c. if c = CHR ''Z'' then ''+00:00'' else [c]) s)"

definition parse_time :: "isoparser \<Rightarrow> string \<Rightarrow> exn + pydatetime" where
  "parse_time fromiso s = (case fromiso (replace_Z s) of None \<Rightarrow> Inl ValueError | Some d \<Rightarrow> Inr d)"

text \<open>\<open>created_at > self.last_check\<close>, where \<open>last_check\<close> is offset-aware.\<close>

definition after_check :: "pydatetime \<Rightarrow> int \<Rightarrow> exn + bool" where
  "after_check d lc = (case d of Naive t \<Rightarrow> Inl TypeError | Aware t \<Rightarrow> Inr (lc < t))"

text \<open>\<open>str\<close> of an integer, as the f-strings of lines 149 and 173 format \<open>pr_number\<close>.\<close>

definition digit_char :: "nat \<Rightarrow> char" where
  "digit_char d = ''0123456789'' ! d"

function str_nat :: "nat \<Rightarrow> string" where
  "str_nat k = (if k < 10 then [digit_char k] else str_nat (k div 10) @ [digit_char (k mod 10)])"
  by pat_completeness auto
termination
  by (relation "measure id") auto

definition str_int :: "int \<Rightarrow> string" where
  "str_int i = (if i < 0 then CHR ''-'' # str_nat (nat (- i)) else str_nat (nat i))"

definition event_id :: "string \<Rightarrow> string \<Rightarrow> int \<Rightarrow> string \<Rightarrow> string" where
  "event_id origin repo n raw = origin @ ''_'' @ repo @ ''_'' @ str_int n @ ''_'' @ raw"

text \<open>Line 156: \<open>body[:100] + '...' if len(body) > 100 else body\<close>.\<close>

definition excerpt :: "string \<Rightarrow> string" where
  "excerpt b = (if length b > 100 then take 100 b @ ''...'' else b)"

section \<open>get_pr_comments\<close>

text \<open>
  The body of the loop over the comments (lines 145-158) up to the append: the exception
  that a read raises, or no event, or the event with its \<open>event_id\<close>. When the monitor is
  not in test mode the author is read for \<open>author_filter\<close> before the dates are compared.
\<close>

definition comment_step ::
  "isoparser \<Rightarrow> monitor \<Rightarrow> string \<Rightarrow> int \<Rightarrow> raw_comment \<Rightarrow> exn + tagged option" where
  "comment_step fromiso m repo n c =
     bind_exn (getitem (c_createdAt c)) (\<lambda>ts.
     bind_exn (parse_time fromiso ts) (\<lambda>d.
     bind_exn (if test_mode m then Inr True
               else bind_exn (author_login (c_author c)) (\<lambda>l. Inr (l \<noteq> username m))) (\<lambda>author_filter.
     bind_exn (after_check d (last_check m)) (\<lambda>later.
       if later \<and> author_filter then
         bind_exn (getitem (c_id c)) (\<lambda>raw.
           let eid = event_id ''comment'' repo n raw in
           if eid \<notin> processed_events m then
             bind_exn (author_login (c_author c)) (\<lambda>l.
             bind_exn (getitem (c_body c)) (\<lambda>b.
               Inr (Some (eid, \<lparr>pr_number = n, event_type = ''comment'', author = l,
                                created_at = ts, body = Some (excerpt b)\<rparr>))))
           else Inr None)
       else Inr None))))"

text \<open>Lines 175-180.\<close>

definition review_kind :: "string \<Rightarrow> string" where
  "review_kind st =
     (if st = ''APPROVED'' then ''approved''
      else if st = ''CHANGES_REQUESTED'' then ''changes_requested''
      else ''commented'')"

text \<open>The body of the loop over the reviews (lines 168-189) up to the append.\<close>

definition review_step ::
  "isoparser \<Rightarrow> monitor \<Rightarrow> string \<Rightarrow> int \<Rightarrow> raw_review \<Rightarrow> exn + tagged option" where
  "review_step fromiso m repo n r =
     bind_exn (getitem (r_state r)) (\<lambda>st.
       if st \<in> set [''APPROVED'', ''CHANGES_REQUESTED'', ''COMMENTED''] then
         bind_exn (getitem (r_submittedAt r)) (\<lambda>ts.
         bind_exn (parse_time fromiso ts) (\<lambda>d.
         bind_exn (if test_mode m then Inr True
                   else bind_exn (author_login (r_author r)) (\<lambda>l. Inr (l \<noteq> username m))) (\<lambda>author_filter.
         bind_exn (after_check d (last_check m)) (\<lambda>later.
           if later \<and> author_filter then
             bind_exn (getitem (r_id r)) (\<lambda>raw.
               let eid = event_id ''review'' repo n raw in
               if eid \<notin> processed_events m then
                 bind_exn (author_login (r_author r)) (\<lambda>l.
                   Inr (Some (eid, \<lparr>pr_number = n, event_type = review_kind st, author = l,
                                    created_at = ts,
                                    body = Some (case r_body r of None \<Rightarrow> [] | Some b \<Rightarrow> b)\<rparr>)))
               else Inr None)
           else Inr None))))
       else Inr None)"

text \<open>
  A \<open>for\<close> loop over the records: the event is appended and its \<open>event_id\<close> added to
  \<open>processed_events\<close>; an exception leaves the loop with the list and the set as they
  are at that moment.
\<close>

fun records_loop ::
  "(monitor \<Rightarrow> 'r \<Rightarrow> exn + tagged option) \<Rightarrow> 'r list \<Rightarrow> tagged list \<times> monitor
     \<Rightarrow> exn option \<times> tagged list \<times> monitor" where
  "records_loop step [] (events, m) = (None, events, m)"
| "records_loop step (x # xs) (events, m) =
     (case step m x of
        Inl e \<Rightarrow> (Some e, events, m)
      | Inr None \<Rightarrow> records_loop step xs (events, m)
      | Inr (Some (eid, ev)) \<Rightarrow>
          records_loop step xs
            (events @ [(eid, ev)], m\<lparr>processed_events := insert eid (processed_events m)\<rparr>))"

text \<open>
  Lines 139-158: the comments are fetched and decoded, and the loop runs when the
  decoded object has the key \<open>'comments'\<close>.
\<close>

definition comments_phase ::
  "isoparser \<Rightarrow> gh_env \<Rightarrow> monitor \<Rightarrow> string \<Rightarrow> int \<Rightarrow> exn option \<times> tagged list \<times> monitor" where
  "comments_phase fromiso env m repo n =
     (case view_comments env repo n of
        ProcessFailed \<Rightarrow> (Some CalledProcessError, [], m)
      | BadJSON \<Rightarrow> (Some JSONDecodeError, [], m)
      | Decoded pr_data \<Rightarrow>
          (case pr_data of
             None \<Rightarrow> (None, [], m)
           | Some cs \<Rightarrow> records_loop (\<lambda>k. comment_step fromiso k repo n) cs ([], m)))"

text \<open>Lines 161-189: the same for the reviews, on the list and the set as they are then.\<close>

definition reviews_phase ::
  "isoparser \<Rightarrow> gh_env \<Rightarrow> string \<Rightarrow> int \<Rightarrow> tagged list \<times> monitor
     \<Rightarrow> exn option \<times> tagged list \<times> monitor" where
  "reviews_phase fromiso env repo n s =
     (case view_reviews env repo n of
        ProcessFailed \<Rightarrow> (Some CalledProcessError, fst s, snd s)
      | BadJSON \<Rightarrow> (Some JSONDecodeError, fst s, snd s)
      | Decoded pr_data \<Rightarrow>
          (case pr_data of
             None \<Rightarrow> (None, fst s, snd s)
           | Some rs \<Rightarrow> records_loop (\<lambda>k. review_step fromiso k repo n) rs s))"

text \<open>
  The \<open>try\<close> block of lines 134-189: the exception that leaves it, if any. An exception
  of the first phase skips the second.
\<close>

definition try_block ::
  "isoparser \<Rightarrow> gh_env \<Rightarrow> monitor \<Rightarrow> string \<Rightarrow> int \<Rightarrow> exn option \<times> tagged list \<times> monitor" where
  "try_block fromiso env m repo n =
     (case comments_phase fromiso env m repo n of
        (Some e, events, m1) \<Rightarrow> (Some e, events, m1)
      | (None, events, m1) \<Rightarrow> reviews_phase fromiso env repo n (events, m1))"

text \<open>
  Lines 191-194: the three caught exceptions are logged and \<open>events\<close> is returned as it
  is; any other exception leaves \<open>get_pr_comments\<close>. The list is lost with the call
  then: the triple still shows it, and \<open>collect\<close> below drops it.
\<close>

definition caught :: "exn \<Rightarrow> bool" where
  "caught e = (e = CalledProcessError \<or> e = JSONDecodeError \<or> e = KeyError)"

definition get_pr_comments ::
  "isoparser \<Rightarrow> gh_env \<Rightarrow> monitor \<Rightarrow> string \<Rightarrow> int \<Rightarrow> exn option \<times> tagged list \<times> monitor" where
  "get_pr_comments fromiso env m repo n =
     (case try_block fromiso env m repo n of
        (None, events, m') \<Rightarrow> (None, events, m')
      | (Some e, events, m') \<Rightarrow> if caught e then (None, events, m') else (Some e, events, m'))"

section \<open>get_user_prs, flash_for_event, check_for_updates, run\<close>

text \<open>Lines 119-125: a missing key raises \<open>KeyError\<close> outside the \<open>try\<close> of line 102.\<close>

fun build_prs :: "search_item list \<Rightarrow> exn + pr list" where
  "build_prs [] = Inr []"
| "build_prs (item # items) =
     bind_exn (getitem (i_number item)) (\<lambda>nu.
     bind_exn (getitem (i_title item)) (\<lambda>ti.
     bind_exn (bind_exn (getitem (i_repository item)) getitem) (\<lambda>re.
     bind_exn (getitem (i_url item)) (\<lambda>ur.
     bind_exn (build_prs items) (\<lambda>prs.
       Inr (\<lparr>number = nu, title = ti, repository = re, url = ur\<rparr> # prs))))))"

definition get_user_prs :: "search_item list gh_result \<Rightarrow> exn + pr list" where
  "get_user_prs resp =
     (case resp of
        ProcessFailed \<Rightarrow> Inr []
      | BadJSON \<Rightarrow> Inr []
      | Decoded data \<Rightarrow> if data = [] then Inr [] else build_prs data)"

text \<open>
  \<open>flash_for_event\<close> (lines 196-224): without a device nothing is played; otherwise the
  pattern of the event type is played, and an exception of \<open>play_pattern\<close> is caught and
  logged.
\<close>

datatype flash = NoDevice | Played string | PlayFailed string | NoPattern

definition pattern_of :: "string \<Rightarrow> string option" where
  "pattern_of ty =
     (if ty = ''comment'' then Some ''3, #0000FF,0.3,0, #000000,0.3,0''
      else if ty = ''approved'' then Some ''5, #00FF00,0.5,0, #000000,0.2,0''
      else if ty = ''changes_requested'' then Some ''2, #FF0000,1.0,0, #000000,0.5,0''
      else if ty = ''commented'' then Some ''3, #FFFF00,0.3,0, #000000,0.3,0''
      else None)"

definition flash_for_event :: "monitor \<Rightarrow> bool \<Rightarrow> PREvent \<Rightarrow> flash" where
  "flash_for_event m raises event =
     (case blink1 m of
        None \<Rightarrow> NoDevice
      | Some d \<Rightarrow>
          (case pattern_of (event_type event) of
             None \<Rightarrow> NoPattern
           | Some p \<Rightarrow> if raises then PlayFailed p else Played p))"

text \<open>Lines 234-239: an exception of \<open>get_pr_comments\<close> leaves the loop before \<open>extend\<close>.\<close>

fun collect ::
  "isoparser \<Rightarrow> gh_env \<Rightarrow> pr list \<Rightarrow> tagged list \<times> monitor \<Rightarrow> exn option \<times> tagged list \<times> monitor" where
  "collect fromiso env [] (new_events, m) = (None, new_events, m)"
| "collect fromiso env (p # ps) (new_events, m) =
     (case get_pr_comments fromiso env m (repository p) (number p) of
        (Some e, events, m') \<Rightarrow> (Some e, new_events, m')
      | (None, events, m') \<Rightarrow> collect fromiso env ps (new_events @ events, m'))"

text \<open>Lines 242-248: every new event is flashed, in order.\<close>

definition flash_all :: "monitor \<Rightarrow> gh_env \<Rightarrow> tagged list \<Rightarrow> (tagged \<times> flash) list" where
  "flash_all m env new_events =
     map (\<lambda>(k, t). (t, flash_for_event m (play_pattern_raises env k) (snd t)))
       (zip [0 ..< length new_events] new_events)"

text \<open>
  \<open>check_for_updates\<close> (lines 226-251): the exception that leaves it, if any, the monitor
  afterwards and the flashes of the cycle.
\<close>

definition check_for_updates ::
  "isoparser \<Rightarrow> gh_env \<Rightarrow> monitor \<Rightarrow> exn option \<times> monitor \<times> (tagged \<times> flash) list" where
  "check_for_updates fromiso env m =
     (case get_user_prs (search_prs env) of
        Inl e \<Rightarrow> (Some e, m, [])
      | Inr prs \<Rightarrow>
          (case collect fromiso env prs ([], m) of
             (Some e, new_events, m') \<Rightarrow> (Some e, m', [])
           | (None, new_events, m') \<Rightarrow>
               (None, m'\<lparr>last_check := now env\<rparr>, flash_all m' env new_events)))"

text \<open>
  \<open>run\<close> (lines 258-267), for the cycles that happen before the interrupt: an exception
  of a cycle is logged and the loop goes on.
\<close>

fun run :: "isoparser \<Rightarrow> monitor \<Rightarrow> gh_env list \<Rightarrow> monitor \<times> (tagged \<times> flash) list" where
  "run fromiso m [] = (m, [])"
| "run fromiso m (env # envs) =
     (case check_for_updates fromiso env m of
        (x, m', flashes) \<Rightarrow>
          (case run fromiso m' envs of (m'', later) \<Rightarrow> (m'', flashes @ later)))"

section \<open>Construction\<close>

text \<open>
  \<open>__init__\<close> (lines 58-96). \<open>Blink1()\<close> returns a device or raises
  \<open>Blink1ConnectionFailed\<close>; \<open>gh auth status\<close> succeeds, fails, or \<open>gh\<close> is not installed.
\<close>

datatype blink1_open = Connected string | Blink1ConnectionFailed

datatype gh_auth = Authenticated | NotAuthenticated | GhNotFound

definition init_blink1 :: "blink1_open \<Rightarrow> device option" where
  "init_blink1 b = (case b of Connected serial \<Rightarrow> Some (Blink1 serial) | Blink1ConnectionFailed \<Rightarrow> None)"

definition check_gh_cli :: "gh_auth \<Rightarrow> string + unit" where
  "check_gh_cli a =
     (case a of
        Authenticated \<Rightarrow> Inr ()
      | NotAuthenticated \<Rightarrow> Inl ''gh CLI authentication required''
      | GhNotFound \<Rightarrow> Inl ''gh CLI not installed'')"

definition init ::
  "string \<Rightarrow> int \<Rightarrow> bool \<Rightarrow> int \<Rightarrow> blink1_open \<Rightarrow> gh_auth \<Rightarrow> string + monitor" where
  "init user interval test clock b a =
     (case check_gh_cli a of
        Inl msg \<Rightarrow> Inl msg
      | Inr u \<Rightarrow>
          Inr \<lparr>username = user, poll_interval = interval, test_mode = test,
               processed_events = {}, last_check = clock - 3600000000,
               blink1 = init_blink1 b\<rparr>)"

section \<open>Answers whose dates parse\<close>



section \<open>Example inputs\<close>

text \<open>
  The values of \<open>datetime.fromisoformat\<close> on the strings of the examples: midnight of
  1 January 2024 (UTC), one second later, and one second later without an offset.
\<close>

definition fromiso_ex :: isoparser where
  "fromiso_ex s =
     (if s = ''2024-01-01T00:00:00+00:00'' then Some (Aware 1704067200000000)
      else if s = ''2024-01-01T00:00:01+00:00'' then Some (Aware 1704067201000000)
      else if s = ''2024-01-01T00:00:01'' then Some (Naive 1704067201000000)
      else None)"

text \<open>A monitor of user \<open>me\<close> whose last check was at that midnight.\<close>

definition monitor_ex :: monitor where
  "monitor_ex =
     \<lparr>username = ''me'', poll_interval = 60, test_mode = False, processed_events = {},
      last_check = 1704067200000000, blink1 = Some (Blink1 ''2000ABCD'')\<rparr>"

text \<open>A comment of another user, one second after the last check.\<close>

definition comment_ex :: raw_comment where
  "comment_ex =
     \<lparr>c_createdAt = Some ''2024-01-01T00:00:01Z'', c_author = Some (Some ''bob''),
      c_id = Some ''IC_1'', c_body = Some ''hello''\<rparr>"

definition item_ex :: search_item where
  "item_ex =
     \<lparr>i_number = Some 7, i_title = Some ''t'', i_repository = Some (Some ''o/r''),
      i_url = Some ''u''\<rparr>"

text \<open>
  One open pull request, \<open>o/r\<close> number 7, with the given answers of the two
  \<open>gh pr view\<close> calls; \<open>play_pattern\<close> does not raise and the cycle ends a minute after
  the last check.
\<close>

definition env_of ::
  "raw_comment list option gh_result \<Rightarrow> raw_review list option gh_result \<Rightarrow> gh_env" where
  "env_of c r =
     \<lparr>search_prs = Decoded [item_ex],
      view_comments = (\<lambda>repo n. c),
      view_reviews = (\<lambda>repo n. r),
      play_pattern_raises = (\<lambda>k. False),
      now = 1704067260000000\<rparr>"

text \<open>The pull request has that comment and no review.\<close>

definition env_ex :: gh_env where
  "env_ex = env_of (Decoded (Some [comment_ex])) (Decoded (Some []))"

text \<open>A comment made at the instant of the last check.\<close>

definition comment_at_cutoff :: raw_comment where
  "comment_at_cutoff =
     \<lparr>c_createdAt = Some ''2024-01-01T00:00:00Z'', c_author = Some (Some ''bob''),
      c_id = Some ''IC_0'', c_body = Some ''early''\<rparr>"

text \<open>A comment without \<open>'body'\<close>, otherwise like the one above.\<close>

definition comment_nobody :: raw_comment where
  "comment_nobody =
     \<lparr>c_createdAt = Some ''2024-01-01T00:00:01Z'', c_author = Some (Some ''bob''),
      c_id = Some ''IC_2'', c_body = None\<rparr>"

text \<open>An approval with a body of 101 characters, and one without \<open>'body'\<close>.\<close>

definition review_long :: raw_review where
  "review_long =
     \<lparr>r_state = Some ''APPROVED'', r_submittedAt = Some ''2024-01-01T00:00:01Z'',
      r_author = Some (Some ''bob''), r_id = Some ''PRR_1'',
      r_body = Some (replicate 101 (CHR ''x''))\<rparr>"

definition review_nobody :: raw_review where
  "review_nobody =
     \<lparr>r_state = Some ''APPROVED'', r_submittedAt = Some ''2024-01-01T00:00:01Z'',
      r_author = Some (Some ''bob''), r_id = Some ''PRR_2'', r_body = None\<rparr>"

text \<open>A comment with the same body of 101 characters.\<close>

definition comment_long :: raw_comment where
  "comment_long =
     \<lparr>c_createdAt = Some ''2024-01-01T00:00:01Z'', c_author = Some (Some ''bob''),
      c_id = Some ''IC_3'', c_body = Some (replicate 101 (CHR ''x''))\<rparr>"

text \<open>A comment and an approval of the monitored user \<open>me\<close>, after the last check.\<close>

definition comment_own :: raw_comment where
  "comment_own =
     \<lparr>c_createdAt = Some ''2024-01-01T00:00:01Z'', c_author = Some (Some ''me''),
      c_id = Some ''IC_4'', c_body = Some ''mine''\<rparr>"

definition review_own :: raw_review where
  "review_own =
     \<lparr>r_state = Some ''APPROVED'', r_submittedAt = Some ''2024-01-01T00:00:01Z'',
      r_author = Some (Some ''me''), r_id = Some ''PRR_4'', r_body = Some ''ok''\<rparr>"

text \<open>
  The same monitor in test mode, and a pull request with the comment of the monitored
  user, the comment of the other user and the approval of the monitored user.
\<close>

definition monitor_test :: monitor where
  "monitor_test = monitor_ex\<lparr>test_mode := True\<rparr>"

definition env_own :: gh_env where
  "env_own = env_of (Decoded (Some [comment_own, comment_ex])) (Decoded (Some [review_own]))"

text \<open>A dismissed review of the other user, after the last check.\<close>

definition review_dismissed :: raw_review where
  "review_dismissed =
     \<lparr>r_state = Some ''DISMISSED'', r_submittedAt = Some ''2024-01-01T00:00:01Z'',
      r_author = Some (Some ''bob''), r_id = Some ''PRR_5'', r_body = Some ''no''\<rparr>"

text \<open>The three kinds of review that are reported, by the other user.\<close>

definition review_of :: "string \<Rightarrow> string \<Rightarrow> raw_review" where
  "review_of st raw =
     \<lparr>r_state = Some st, r_submittedAt = Some ''2024-01-01T00:00:01Z'',
      r_author = Some (Some ''bob''), r_id = Some raw, r_body = Some ''''\<rparr>"

text \<open>A pull request without comments and with these four reviews.\<close>

definition reviews_ex :: "raw_review list" where
  "reviews_ex =
     [review_dismissed, review_of ''APPROVED'' ''PRR_6'',
      review_of ''CHANGES_REQUESTED'' ''PRR_7'', review_of ''COMMENTED'' ''PRR_8'']"

definition env_reviews :: gh_env where
  "env_reviews = env_of (Decoded (Some [])) (Decoded (Some reviews_ex))"

text \<open>A comment of the monitored user made at the instant of the last check.\<close>

definition comment_own_at_cutoff :: raw_comment where
  "comment_own_at_cutoff =
     \<lparr>c_createdAt = Some ''2024-01-01T00:00:00Z'', c_author = Some (Some ''me''),
      c_id = Some ''IC_5'', c_body = Some ''old''\<rparr>"





section \<open>Lemmas about the loop bodies and the loops\<close>

lemma comment_step_SomeD:
  assumes "comment_step fromiso m repo n c = Inr (Some (eid, ev))"
  shows "\<exists>ts t l raw b. c_createdAt c = Some ts \<and> fromiso (replace_Z ts) = Some (Aware t) \<and>
        last_check m < t \<and> c_author c = Some (Some l) \<and> (test_mode m \<or> l \<noteq> username m) \<and>
        c_id c = Some raw \<and> eid = event_id ''comment'' repo n raw \<and> eid \<notin> processed_events m \<and>
        c_body c = Some b \<and>
        ev = \<lparr>pr_number = n, event_type = ''comment'', author = l, created_at = ts,
              body = Some (excerpt b)\<rparr>"
proof (cases "c_createdAt c")
  case None
  with assms show ?thesis by (simp add: comment_step_def bind_exn_def getitem_def)
next
  case ts: (Some ts)
  show ?thesis
  proof (cases "fromiso (replace_Z ts)")
    case None
    with assms ts show ?thesis
      by (simp add: comment_step_def bind_exn_def getitem_def parse_time_def)
  next
    case (Some d)
    note d = this
    show ?thesis
    proof (cases d)
      case (Naive t)
      with assms ts d show ?thesis
        by (simp add: comment_step_def bind_exn_def getitem_def parse_time_def after_check_def
            split: sum.splits)
    next
      case (Aware t)
      with assms ts d show ?thesis
        by (simp add: comment_step_def bind_exn_def getitem_def parse_time_def after_check_def
            author_login_def Let_def split: sum.splits option.splits if_splits)
    qed
  qed
qed


lemma review_step_SomeD:
  assumes "review_step fromiso m repo n r = Inr (Some (eid, ev))"
  shows "\<exists>st ts t l raw. r_state r = Some st \<and>
        st \<in> {''APPROVED'', ''CHANGES_REQUESTED'', ''COMMENTED''} \<and>
        r_submittedAt r = Some ts \<and> fromiso (replace_Z ts) = Some (Aware t) \<and>
        last_check m < t \<and> r_author r = Some (Some l) \<and> (test_mode m \<or> l \<noteq> username m) \<and>
        r_id r = Some raw \<and> eid = event_id ''review'' repo n raw \<and> eid \<notin> processed_events m \<and>
        ev = \<lparr>pr_number = n, event_type = review_kind st, author = l, created_at = ts,
              body = Some (case r_body r of None \<Rightarrow> [] | Some b \<Rightarrow> b)\<rparr>"
proof (cases "r_state r")
  case None
  with assms show ?thesis by (simp add: review_step_def bind_exn_def getitem_def)
next
  case st: (Some st)
  show ?thesis
  proof (cases "st \<in> {''APPROVED'', ''CHANGES_REQUESTED'', ''COMMENTED''}")
    case False
    with assms st show ?thesis by (simp add: review_step_def bind_exn_def getitem_def)
  next
    case rec: True
    show ?thesis
    proof (cases "r_submittedAt r")
      case None
      with assms st rec show ?thesis by (simp add: review_step_def bind_exn_def getitem_def)
    next
      case ts: (Some ts)
      show ?thesis
      proof (cases "fromiso (replace_Z ts)")
        case None
        with assms st rec ts show ?thesis
          by (simp add: review_step_def bind_exn_def getitem_def parse_time_def)
      next
        case (Some d)
        note d = this
        show ?thesis
        proof (cases d)
          case (Naive t)
          with assms st rec ts d show ?thesis
            by (simp add: review_step_def bind_exn_def getitem_def parse_time_def after_check_def
                split: sum.splits)
        next
          case (Aware t)
          with assms st rec ts d show ?thesis
            by (simp add: review_step_def bind_exn_def getitem_def parse_time_def after_check_def
                author_login_def Let_def split: sum.splits option.splits if_splits)
        qed
      qed
    qed
  qed
qed

lemma records_loop_frame:
  "records_loop step xs (events, m) = (x, events', m') \<Longrightarrow> \<exists>P. m' = m\<lparr>processed_events := P\<rparr>"
proof (induction xs arbitrary: events m)
  case Nil
  then have "m' = m\<lparr>processed_events := processed_events m\<rparr>" by simp
  then show ?case by blast
next
  case (Cons y ys)
  show ?case
  proof (cases "step m y")
    case (Inl e)
    with Cons.prems have "m' = m\<lparr>processed_events := processed_events m\<rparr>" by simp
    then show ?thesis by blast
  next
    case (Inr o1)
    show ?thesis
    proof (cases o1)
      case None
      with Inr Cons.prems have "records_loop step ys (events, m) = (x, events', m')" by simp
      from Cons.IH[OF this] show ?thesis .
    next
      case (Some t)
      obtain eid ev where t: "t = (eid, ev)" by (cases t)
      from Some Inr t Cons.prems
      have "records_loop step ys
              (events @ [(eid, ev)], m\<lparr>processed_events := insert eid (processed_events m)\<rparr>)
            = (x, events', m')"
        by simp
      from Cons.IH[OF this] obtain P
        where "m' = m\<lparr>processed_events := insert eid (processed_events m)\<rparr>\<lparr>processed_events := P\<rparr>"
        by blast
      then have "m' = m\<lparr>processed_events := P\<rparr>" by simp
      then show ?thesis by blast
    qed
  qed
qed

lemma records_loop_inv:
  assumes step: "\<And>m x eid ev. step m x = Inr (Some (eid, ev)) \<Longrightarrow> eid \<notin> processed_events m"
    and run: "records_loop step xs (events, m) = (x, events', m')"
    and inv: "distinct (map fst events)" "fst ` set events \<inter> P0 = {}"
      "processed_events m = P0 \<union> fst ` set events"
  shows "distinct (map fst events') \<and> fst ` set events' \<inter> P0 = {} \<and>
         processed_events m' = P0 \<union> fst ` set events'"
  using run inv
proof (induction xs arbitrary: events m)
  case Nil
  then show ?case by simp
next
  case (Cons y ys)
  show ?case
  proof (cases "step m y")
    case (Inl e)
    with Cons.prems show ?thesis by simp
  next
    case (Inr o1)
    show ?thesis
    proof (cases o1)
      case None
      with Inr Cons.prems(1) have "records_loop step ys (events, m) = (x, events', m')" by simp
      from Cons.IH[OF this Cons.prems(2-4)] show ?thesis .
    next
      case (Some t)
      obtain eid ev where t: "t = (eid, ev)" by (cases t)
      let ?m1 = "m\<lparr>processed_events := insert eid (processed_events m)\<rparr>"
      from Some Inr t have st: "step m y = Inr (Some (eid, ev))" by simp
      from step[OF st] have fresh: "eid \<notin> processed_events m" .
      from st Cons.prems(1)
      have r: "records_loop step ys (events @ [(eid, ev)], ?m1) = (x, events', m')"
        by simp
      have a: "distinct (map fst (events @ [(eid, ev)]))"
        using Cons.prems(2,4) fresh by auto
      have b: "fst ` set (events @ [(eid, ev)]) \<inter> P0 = {}"
        using Cons.prems(3,4) fresh by auto
      have c: "processed_events ?m1 = P0 \<union> fst ` set (events @ [(eid, ev)])"
        using Cons.prems(4) by auto
      from Cons.IH[OF r a b c] show ?thesis .
    qed
  qed
qed

lemma records_loop_prefix:
  "records_loop step xs (events, m) = (x, events', m') \<Longrightarrow> take (length events) events' = events"
proof (induction xs arbitrary: events m)
  case Nil
  then show ?case by simp
next
  case (Cons y ys)
  show ?case
  proof (cases "step m y")
    case (Inl e)
    with Cons.prems show ?thesis by simp
  next
    case (Inr o1)
    show ?thesis
    proof (cases o1)
      case None
      with Inr Cons.prems have "records_loop step ys (events, m) = (x, events', m')" by simp
      from Cons.IH[OF this] show ?thesis .
    next
      case (Some t)
      obtain eid ev where t: "t = (eid, ev)" by (cases t)
      from Some Inr t Cons.prems
      have "records_loop step ys
              (events @ [(eid, ev)], m\<lparr>processed_events := insert eid (processed_events m)\<rparr>)
            = (x, events', m')"
        by simp
      from Cons.IH[OF this] have "take (Suc (length events)) events' = events @ [(eid, ev)]"
        by simp
      then have "events' = (events @ [(eid, ev)]) @ drop (Suc (length events)) events'"
        by (metis append_take_drop_id)
      then show ?thesis by (metis append.assoc append_eq_conv_conj)
    qed
  qed
qed

lemma records_loop_all:
  assumes run: "records_loop step xs (events, m) = (x, events', m')"
    and step: "\<forall>P y t. y \<in> set xs \<longrightarrow> processed_events m0 \<subseteq> P \<longrightarrow>
                 step (m0\<lparr>processed_events := P\<rparr>) y = Inr (Some t) \<longrightarrow> Q t"
    and old: "\<forall>t\<in>set events. Q t"
    and m: "m = m0\<lparr>processed_events := P\<rparr>" "processed_events m0 \<subseteq> P"
  shows "\<forall>t\<in>set events'. Q t"
  using assms
proof (induction xs arbitrary: events m P)
  case Nil
  then show ?case by simp
next
  case (Cons y ys)
  have step': "\<forall>P z t. z \<in> set ys \<longrightarrow> processed_events m0 \<subseteq> P \<longrightarrow>
                 step (m0\<lparr>processed_events := P\<rparr>) z = Inr (Some t) \<longrightarrow> Q t"
    using Cons.prems(2) by simp
  show ?case
  proof (cases "step m y")
    case (Inl e)
    with Cons.prems(1,3) show ?thesis by simp
  next
    case (Inr o1)
    show ?thesis
    proof (cases o1)
      case None
      with Inr Cons.prems(1) have "records_loop step ys (events, m) = (x, events', m')" by simp
      from Cons.IH[OF this step' Cons.prems(3,4,5)] show ?thesis .
    next
      case (Some t)
      obtain eid ev where t: "t = (eid, ev)" by (cases t)
      let ?m1 = "m\<lparr>processed_events := insert eid (processed_events m)\<rparr>"
      from Some Inr t have st: "step m y = Inr (Some (eid, ev))" by simp
      have q: "Q (eid, ev)"
        using Cons.prems(2) st Cons.prems(4,5) by simp
      from st Cons.prems(1)
      have r: "records_loop step ys (events @ [(eid, ev)], ?m1) = (x, events', m')"
        by simp
      have a: "\<forall>t\<in>set (events @ [(eid, ev)]). Q t" using q Cons.prems(3) by simp
      have b: "?m1 = m0\<lparr>processed_events := insert eid P\<rparr>" using Cons.prems(4) by simp
      have c: "processed_events m0 \<subseteq> insert eid P" using Cons.prems(5) by blast
      from Cons.IH[OF r step' a b c] show ?thesis .
    qed
  qed
qed

section \<open>Lemmas about get_pr_comments\<close>

lemma try_block_cases:
  assumes res: "try_block fromiso env m repo n = (x, events, m')"
    and base: "R [] m"
    and cl: "\<And>cs y e1 m1. view_comments env repo n = Decoded (Some cs) \<Longrightarrow>
               records_loop (\<lambda>k. comment_step fromiso k repo n) cs ([], m) = (y, e1, m1) \<Longrightarrow>
               R e1 m1"
    and rl: "\<And>rs y e0 m0 e1 m1. view_reviews env repo n = Decoded (Some rs) \<Longrightarrow> R e0 m0 \<Longrightarrow>
               records_loop (\<lambda>k. review_step fromiso k repo n) rs (e0, m0) = (y, e1, m1) \<Longrightarrow>
               R e1 m1"
  shows "R events m'"
proof -
  obtain y e1 m1 where c: "comments_phase fromiso env m repo n = (y, e1, m1)"
    by (cases "comments_phase fromiso env m repo n")
  have r1: "R e1 m1"
  proof (cases "view_comments env repo n")
    case ProcessFailed
    with c base show ?thesis by (simp add: comments_phase_def)
  next
    case BadJSON
    with c base show ?thesis by (simp add: comments_phase_def)
  next
    case (Decoded pr_data)
    show ?thesis
    proof (cases pr_data)
      case None
      with c Decoded base show ?thesis by (simp add: comments_phase_def)
    next
      case (Some cs)
      with c Decoded
      have "records_loop (\<lambda>k. comment_step fromiso k repo n) cs ([], m) = (y, e1, m1)"
        by (simp add: comments_phase_def)
      from cl[OF _ this] Decoded Some show ?thesis by simp
    qed
  qed
  show ?thesis
  proof (cases y)
    case (Some e)
    with res c have "events = e1 \<and> m' = m1" by (simp add: try_block_def)
    with r1 show ?thesis by simp
  next
    case None
    with res c have rp: "reviews_phase fromiso env repo n (e1, m1) = (x, events, m')"
      by (simp add: try_block_def)
    show ?thesis
    proof (cases "view_reviews env repo n")
      case ProcessFailed
      with rp have "events = e1 \<and> m' = m1" by (simp add: reviews_phase_def)
      with r1 show ?thesis by simp
    next
      case BadJSON
      with rp have "events = e1 \<and> m' = m1" by (simp add: reviews_phase_def)
      with r1 show ?thesis by simp
    next
      case (Decoded pr_data2)
      show ?thesis
      proof (cases pr_data2)
        case None
        with rp Decoded have "events = e1 \<and> m' = m1" by (simp add: reviews_phase_def)
        with r1 show ?thesis by simp
      next
        case (Some rs)
        with rp Decoded
        have "records_loop (\<lambda>k. review_step fromiso k repo n) rs (e1, m1) = (x, events, m')"
          by (simp add: reviews_phase_def)
        from rl[OF _ r1 this] Decoded Some show ?thesis by simp
      qed
    qed
  qed
qed

lemma get_pr_comments_try_block:
  assumes "get_pr_comments fromiso env m repo n = (x, events, m')"
  shows "\<exists>y. try_block fromiso env m repo n = (y, events, m') \<and>
             (x = None \<and> (y = None \<or> (\<exists>e. y = Some e \<and> caught e)) \<or>
              (\<exists>e. x = Some e \<and> y = Some e \<and> \<not> caught e))"
proof -
  obtain y e1 m1 where t: "try_block fromiso env m repo n = (y, e1, m1)"
    by (cases "try_block fromiso env m repo n")
  with assms show ?thesis
    by (cases y) (auto simp: get_pr_comments_def split: if_splits)
qed

lemma get_pr_comments_frame:
  assumes "get_pr_comments fromiso env m repo n = (x, events, m')"
  shows "\<exists>P. m' = m\<lparr>processed_events := P\<rparr>"
proof -
  from get_pr_comments_try_block[OF assms] obtain y
    where t: "try_block fromiso env m repo n = (y, events, m')" by blast
  have "(\<lambda>(e::tagged list) k. \<exists>P. k = m\<lparr>processed_events := P\<rparr>) events m'"
  proof (rule try_block_cases[OF t])
    have "m = m\<lparr>processed_events := processed_events m\<rparr>" by simp
    then show "\<exists>P. m = m\<lparr>processed_events := P\<rparr>" by blast
  next
    fix cs y e1 m1
    assume "records_loop (\<lambda>k. comment_step fromiso k repo n) cs ([], m) = (y, e1, m1)"
    from records_loop_frame[OF this] show "\<exists>P. m1 = m\<lparr>processed_events := P\<rparr>" .
  next
    fix rs y e0 m0 e1 m1
    assume "\<exists>P. m0 = m\<lparr>processed_events := P\<rparr>"
      and "records_loop (\<lambda>k. review_step fromiso k repo n) rs (e0, m0) = (y, e1, m1)"
    then obtain P P' where "m0 = m\<lparr>processed_events := P\<rparr>" "m1 = m0\<lparr>processed_events := P'\<rparr>"
      using records_loop_frame by blast
    then have "m1 = m\<lparr>processed_events := P'\<rparr>" by simp
    then show "\<exists>P. m1 = m\<lparr>processed_events := P\<rparr>" by blast
  qed
  then show ?thesis by simp
qed

lemma comment_step_fresh:
  "comment_step fromiso m repo n c = Inr (Some (eid, ev)) \<Longrightarrow> eid \<notin> processed_events m"
  using comment_step_SomeD by blast

lemma review_step_fresh:
  "review_step fromiso m repo n r = Inr (Some (eid, ev)) \<Longrightarrow> eid \<notin> processed_events m"
  using review_step_SomeD by blast

lemma get_pr_comments_fresh:
  assumes "get_pr_comments fromiso env m repo n = (x, events, m')"
  shows "distinct (map fst events) \<and> fst ` set events \<inter> processed_events m = {} \<and>
         processed_events m' = processed_events m \<union> fst ` set events"
proof -
  from get_pr_comments_try_block[OF assms] obtain y
    where t: "try_block fromiso env m repo n = (y, events, m')" by blast
  have "(\<lambda>e k. distinct (map fst e) \<and> fst ` set e \<inter> processed_events m = {} \<and>
         processed_events k = processed_events m \<union> fst ` set e) events m'"
  proof (rule try_block_cases[OF t])
    show "distinct (map fst ([]::tagged list)) \<and> fst ` set ([]::tagged list) \<inter> processed_events m = {} \<and>
      processed_events m = processed_events m \<union> fst ` set ([]::tagged list)" by simp
  next
    fix cs y e1 m1
    assume l: "records_loop (\<lambda>k. comment_step fromiso k repo n) cs ([], m) = (y, e1, m1)"
    show "distinct (map fst e1) \<and> fst ` set e1 \<inter> processed_events m = {} \<and>
      processed_events m1 = processed_events m \<union> fst ` set e1"
      by (rule records_loop_inv[OF _ l]) (simp_all add: comment_step_fresh)
  next
    fix rs y e0 m0 e1 m1
    assume i: "distinct (map fst e0) \<and> fst ` set e0 \<inter> processed_events m = {} \<and>
      processed_events m0 = processed_events m \<union> fst ` set e0"
      and l: "records_loop (\<lambda>k. review_step fromiso k repo n) rs (e0, m0) = (y, e1, m1)"
    show "distinct (map fst e1) \<and> fst ` set e1 \<inter> processed_events m = {} \<and>
      processed_events m1 = processed_events m \<union> fst ` set e1"
      by (rule records_loop_inv[OF _ l]) (use i in \<open>simp_all add: review_step_fresh\<close>)
  qed
  then show ?thesis by simp
qed

lemma records_loop_mono:
  "records_loop step xs (events, m) = (x, events', m') \<Longrightarrow>
     processed_events m \<subseteq> processed_events m'"
proof (induction xs arbitrary: events m)
  case Nil
  then show ?case by simp
next
  case (Cons y ys)
  show ?case
  proof (cases "step m y")
    case (Inl e)
    with Cons.prems show ?thesis by simp
  next
    case (Inr o1)
    show ?thesis
    proof (cases o1)
      case None
      with Inr Cons.prems have "records_loop step ys (events, m) = (x, events', m')" by simp
      from Cons.IH[OF this] show ?thesis .
    next
      case (Some t)
      obtain eid ev where t: "t = (eid, ev)" by (cases t)
      from Some Inr t Cons.prems
      have "records_loop step ys
              (events @ [(eid, ev)], m\<lparr>processed_events := insert eid (processed_events m)\<rparr>)
            = (x, events', m')"
        by simp
      from Cons.IH[OF this] show ?thesis by simp
    qed
  qed
qed

lemma try_block_all:
  assumes t: "try_block fromiso env m repo n = (y, events, m')"
    and c: "\<And>cs. view_comments env repo n = Decoded (Some cs) \<Longrightarrow>
              \<forall>P c t. c \<in> set cs \<longrightarrow> processed_events m \<subseteq> P \<longrightarrow>
                comment_step fromiso (m\<lparr>processed_events := P\<rparr>) repo n c = Inr (Some t) \<longrightarrow> Q t"
    and r: "\<And>rs. view_reviews env repo n = Decoded (Some rs) \<Longrightarrow>
              \<forall>P r t. r \<in> set rs \<longrightarrow> processed_events m \<subseteq> P \<longrightarrow>
                review_step fromiso (m\<lparr>processed_events := P\<rparr>) repo n r = Inr (Some t) \<longrightarrow> Q t"
  shows "\<forall>t\<in>set events. Q t"
proof -
  have "(\<lambda>e k. (\<forall>t\<in>set e. Q t) \<and>
          (\<exists>P. k = m\<lparr>processed_events := P\<rparr> \<and> processed_events m \<subseteq> P)) events m'"
  proof (rule try_block_cases[OF t])
    have "m = m\<lparr>processed_events := processed_events m\<rparr> \<and>
      processed_events m \<subseteq> processed_events m" by simp
    then have "\<exists>P. m = m\<lparr>processed_events := P\<rparr> \<and> processed_events m \<subseteq> P" by blast
    then show "(\<forall>t\<in>set []. Q t) \<and>
      (\<exists>P. m = m\<lparr>processed_events := P\<rparr> \<and> processed_events m \<subseteq> P)"
      by simp
  next
    fix cs y e1 m1
    assume v: "view_comments env repo n = Decoded (Some cs)"
      and l: "records_loop (\<lambda>k. comment_step fromiso k repo n) cs ([], m) = (y, e1, m1)"
    have "\<forall>t\<in>set e1. Q t"
      by (rule records_loop_all[OF l, where ?m0.0 = m and P = "processed_events m"])
        (use c[OF v] in simp_all)
    moreover from records_loop_frame[OF l] obtain P where P: "m1 = m\<lparr>processed_events := P\<rparr>"
      by blast
    moreover from records_loop_mono[OF l] P have "processed_events m \<subseteq> P" by simp
    ultimately show "(\<forall>t\<in>set e1. Q t) \<and>
      (\<exists>P. m1 = m\<lparr>processed_events := P\<rparr> \<and> processed_events m \<subseteq> P)"
      by blast
  next
    fix rs y e0 m0 e1 m1
    assume v: "view_reviews env repo n = Decoded (Some rs)"
      and i: "(\<forall>t\<in>set e0. Q t) \<and>
        (\<exists>P. m0 = m\<lparr>processed_events := P\<rparr> \<and> processed_events m \<subseteq> P)"
      and l: "records_loop (\<lambda>k. review_step fromiso k repo n) rs (e0, m0) = (y, e1, m1)"
    from i obtain P0 where P0: "m0 = m\<lparr>processed_events := P0\<rparr>" "processed_events m \<subseteq> P0"
      by blast
    have "\<forall>t\<in>set e1. Q t"
      by (rule records_loop_all[OF l, where ?m0.0 = m and P = P0])
        (use r[OF v] i P0 in simp_all)
    moreover from records_loop_frame[OF l] obtain P where P: "m1 = m0\<lparr>processed_events := P\<rparr>"
      by blast
    moreover from records_loop_mono[OF l] P P0 have "processed_events m \<subseteq> P" by simp
    moreover from P P0 have "m1 = m\<lparr>processed_events := P\<rparr>" by simp
    ultimately show "(\<forall>t\<in>set e1. Q t) \<and>
      (\<exists>P. m1 = m\<lparr>processed_events := P\<rparr> \<and> processed_events m \<subseteq> P)"
      by blast
  qed
  then show ?thesis by simp
qed

lemma get_pr_comments_events:
  assumes g: "get_pr_comments fromiso env m repo n = (x, events, m')"
    and t: "(eid, ev) \<in> set events"
  shows "(\<exists>t. fromiso (replace_Z (created_at ev)) = Some (Aware t) \<and> last_check m < t) \<and>
         (test_mode m \<or> author ev \<noteq> username m) \<and> pr_number ev = n \<and>
         ((\<exists>cs c raw b. view_comments env repo n = Decoded (Some cs) \<and> c \<in> set cs \<and>
              c_id c = Some raw \<and> eid = event_id ''comment'' repo n raw \<and>
              c_createdAt c = Some (created_at ev) \<and> c_author c = Some (Some (author ev)) \<and>
              c_body c = Some b \<and> body ev = Some (excerpt b) \<and> event_type ev = ''comment'') \<or>
          (\<exists>rs r raw st. view_reviews env repo n = Decoded (Some rs) \<and> r \<in> set rs \<and>
              r_id r = Some raw \<and> eid = event_id ''review'' repo n raw \<and>
              r_submittedAt r = Some (created_at ev) \<and> r_author r = Some (Some (author ev)) \<and>
              r_state r = Some st \<and> st \<in> {''APPROVED'', ''CHANGES_REQUESTED'', ''COMMENTED''} \<and>
              event_type ev = review_kind st \<and>
              body ev = Some (case r_body r of None \<Rightarrow> [] | Some b \<Rightarrow> b)))"
proof -
  from get_pr_comments_try_block[OF g] obtain y
    where tb: "try_block fromiso env m repo n = (y, events, m')" by blast
  define Q where "Q = (\<lambda>p::tagged. case p of (eid, ev) \<Rightarrow>
     (\<exists>t. fromiso (replace_Z (created_at ev)) = Some (Aware t) \<and> last_check m < t) \<and>
         (test_mode m \<or> author ev \<noteq> username m) \<and> pr_number ev = n \<and>
         ((\<exists>cs c raw b. view_comments env repo n = Decoded (Some cs) \<and> c \<in> set cs \<and>
              c_id c = Some raw \<and> eid = event_id ''comment'' repo n raw \<and>
              c_createdAt c = Some (created_at ev) \<and> c_author c = Some (Some (author ev)) \<and>
              c_body c = Some b \<and> body ev = Some (excerpt b) \<and> event_type ev = ''comment'') \<or>
          (\<exists>rs r raw st. view_reviews env repo n = Decoded (Some rs) \<and> r \<in> set rs \<and>
              r_id r = Some raw \<and> eid = event_id ''review'' repo n raw \<and>
              r_submittedAt r = Some (created_at ev) \<and> r_author r = Some (Some (author ev)) \<and>
              r_state r = Some st \<and> st \<in> {''APPROVED'', ''CHANGES_REQUESTED'', ''COMMENTED''} \<and>
              event_type ev = review_kind st \<and>
              body ev = Some (case r_body r of None \<Rightarrow> [] | Some b \<Rightarrow> b))))"
  have "\<forall>t\<in>set events. Q t"
  proof (rule try_block_all[OF tb])
    fix cs
    assume v: "view_comments env repo n = Decoded (Some cs)"
    show "\<forall>P c t. c \<in> set cs \<longrightarrow> processed_events m \<subseteq> P \<longrightarrow>
            comment_step fromiso (m\<lparr>processed_events := P\<rparr>) repo n c = Inr (Some t) \<longrightarrow> Q t"
    proof (intro allI impI)
      fix P c t
      assume c: "c \<in> set cs" and "processed_events m \<subseteq> P"
        and s: "comment_step fromiso (m\<lparr>processed_events := P\<rparr>) repo n c = Inr (Some t)"
      obtain eid ev where t: "t = (eid, ev)" by (cases t)
      from comment_step_SomeD[OF s[unfolded t]] v c
      show "Q t" unfolding t Q_def by auto
    qed
  next
    fix rs
    assume v: "view_reviews env repo n = Decoded (Some rs)"
    show "\<forall>P r t. r \<in> set rs \<longrightarrow> processed_events m \<subseteq> P \<longrightarrow>
            review_step fromiso (m\<lparr>processed_events := P\<rparr>) repo n r = Inr (Some t) \<longrightarrow> Q t"
    proof (intro allI impI)
      fix P r t
      assume r: "r \<in> set rs" and "processed_events m \<subseteq> P"
        and s: "review_step fromiso (m\<lparr>processed_events := P\<rparr>) repo n r = Inr (Some t)"
      obtain eid ev where t: "t = (eid, ev)" by (cases t)
      from review_step_SomeD[OF s[unfolded t]] v r
      show "Q t" unfolding t Q_def by auto
    qed
  qed
  with t have "Q (eid, ev)" by blast
  then show ?thesis unfolding Q_def by simp
qed

section \<open>Lemmas about collect, check_for_updates and run\<close>

lemma get_pr_comments_mono:
  assumes "get_pr_comments fromiso env m repo n = (x, events, m')"
  shows "processed_events m \<subseteq> processed_events m'"
  using get_pr_comments_fresh[OF assms] by blast

lemma collect_frame:
  "collect fromiso env ps (acc, m) = (x, acc', m') \<Longrightarrow>
     \<exists>P. m' = m\<lparr>processed_events := P\<rparr> \<and> processed_events m \<subseteq> P"
proof (induction ps arbitrary: acc m)
  case Nil
  then have "m' = m\<lparr>processed_events := processed_events m\<rparr> \<and>
    processed_events m \<subseteq> processed_events m" by simp
  then show ?case by blast
next
  case (Cons p ps)
  obtain y events k where g: "get_pr_comments fromiso env m (repository p) (number p) = (y, events, k)"
    by (cases "get_pr_comments fromiso env m (repository p) (number p)")
  from get_pr_comments_frame[OF g] obtain P where P: "k = m\<lparr>processed_events := P\<rparr>" by blast
  from get_pr_comments_mono[OF g] P have sub: "processed_events m \<subseteq> P" by simp
  show ?case
  proof (cases y)
    case (Some e)
    with Cons.prems g have "m' = k" by simp
    with P sub show ?thesis by blast
  next
    case None
    with Cons.prems g have "collect fromiso env ps (acc @ events, k) = (x, acc', m')" by simp
    from Cons.IH[OF this] obtain P' where "m' = k\<lparr>processed_events := P'\<rparr>"
      "processed_events k \<subseteq> P'" by blast
    with P sub have "m' = m\<lparr>processed_events := P'\<rparr> \<and> processed_events m \<subseteq> P'" by auto
    then show ?thesis by blast
  qed
qed

lemma collect_fresh:
  assumes "collect fromiso env ps (acc, m) = (x, acc', m')"
    and "distinct (map fst acc)" "fst ` set acc \<inter> P0 = {}"
    and "P0 \<union> fst ` set acc \<subseteq> processed_events m"
  shows "distinct (map fst acc') \<and> fst ` set acc' \<inter> P0 = {} \<and>
         P0 \<union> fst ` set acc' \<subseteq> processed_events m'"
  using assms
proof (induction ps arbitrary: acc m)
  case Nil
  then show ?case by simp
next
  case (Cons p ps)
  obtain y events k where g: "get_pr_comments fromiso env m (repository p) (number p) = (y, events, k)"
    by (cases "get_pr_comments fromiso env m (repository p) (number p)")
  note f = get_pr_comments_fresh[OF g]
  show ?case
  proof (cases y)
    case (Some e)
    with Cons.prems(1) g have "acc' = acc \<and> m' = k" by simp
    with Cons.prems(2-4) f show ?thesis by auto
  next
    case None
    with Cons.prems(1) g have c: "collect fromiso env ps (acc @ events, k) = (x, acc', m')" by simp
    have a: "distinct (map fst (acc @ events))" using Cons.prems(2,4) f by auto
    have b: "fst ` set (acc @ events) \<inter> P0 = {}" using Cons.prems(3,4) f by auto
    have d: "P0 \<union> fst ` set (acc @ events) \<subseteq> processed_events k" using Cons.prems(4) f by auto
    from Cons.IH[OF c a b d] show ?thesis .
  qed
qed

lemma collect_all:
  assumes "collect fromiso env ps (acc, m) = (x, acc', m')"
    and "\<forall>t\<in>set acc. Q t"
    and "\<forall>P p y events k t. p \<in> set ps \<longrightarrow> processed_events m0 \<subseteq> P \<longrightarrow>
           get_pr_comments fromiso env (m0\<lparr>processed_events := P\<rparr>) (repository p) (number p)
             = (y, events, k) \<longrightarrow> t \<in> set events \<longrightarrow> Q t"
    and "m = m0\<lparr>processed_events := P\<rparr>" "processed_events m0 \<subseteq> P"
  shows "\<forall>t\<in>set acc'. Q t"
  using assms
proof (induction ps arbitrary: acc m P)
  case Nil
  then show ?case by simp
next
  case (Cons p ps)
  have step': "\<forall>P q y events k t. q \<in> set ps \<longrightarrow> processed_events m0 \<subseteq> P \<longrightarrow>
           get_pr_comments fromiso env (m0\<lparr>processed_events := P\<rparr>) (repository q) (number q)
             = (y, events, k) \<longrightarrow> t \<in> set events \<longrightarrow> Q t"
    using Cons.prems(3) by simp
  obtain y events k where g: "get_pr_comments fromiso env m (repository p) (number p) = (y, events, k)"
    by (cases "get_pr_comments fromiso env m (repository p) (number p)")
  show ?case
  proof (cases y)
    case (Some e)
    with Cons.prems(1) g have "acc' = acc" by simp
    with Cons.prems(2) show ?thesis by simp
  next
    case None
    with Cons.prems(1) g have c: "collect fromiso env ps (acc @ events, k) = (x, acc', m')" by simp
    have "\<forall>t\<in>set events. Q t"
    proof
      fix t
      assume t: "t \<in> set events"
      have "p \<in> set (p # ps)" by simp
      from Cons.prems(3)[rule_format, OF this Cons.prems(5) g[unfolded Cons.prems(4)] t]
      show "Q t" .
    qed
    with Cons.prems(2) have a: "\<forall>t\<in>set (acc @ events). Q t" by auto
    from get_pr_comments_frame[OF g] obtain P' where P': "k = m\<lparr>processed_events := P'\<rparr>" by blast
    with Cons.prems(4) have b: "k = m0\<lparr>processed_events := P'\<rparr>" by simp
    from get_pr_comments_mono[OF g] P' Cons.prems(4,5) have d: "processed_events m0 \<subseteq> P'" by simp
    from Cons.IH[OF c a step' b d] show ?thesis .
  qed
qed

lemma flash_all_fst: "map fst (flash_all m env new_events) = new_events"
proof -
  have h: "fst \<circ> (\<lambda>(k, t). (t, flash_for_event m (play_pattern_raises env k) (snd t))) = snd"
    by (auto simp: fun_eq_iff)
  show ?thesis unfolding flash_all_def map_map h by simp
qed

lemma check_for_updates_cases:
  assumes "check_for_updates fromiso env m = (x, m', flashes)"
  shows "(\<exists>e. get_user_prs (search_prs env) = Inl e \<and> x = Some e \<and> m' = m \<and> flashes = []) \<or>
         (\<exists>prs e acc k. get_user_prs (search_prs env) = Inr prs \<and>
            collect fromiso env prs ([], m) = (Some e, acc, k) \<and>
            x = Some e \<and> m' = k \<and> flashes = []) \<or>
         (\<exists>prs acc k. get_user_prs (search_prs env) = Inr prs \<and>
            collect fromiso env prs ([], m) = (None, acc, k) \<and>
            x = None \<and> m' = k\<lparr>last_check := now env\<rparr> \<and> flashes = flash_all k env acc)"
proof (cases "get_user_prs (search_prs env)")
  case (Inl e)
  with assms show ?thesis by (simp add: check_for_updates_def)
next
  case (Inr prs)
  obtain y acc k where c: "collect fromiso env prs ([], m) = (y, acc, k)"
    by (cases "collect fromiso env prs ([], m)")
  with assms Inr show ?thesis
    by (cases y) (auto simp: check_for_updates_def)
qed

lemma check_for_updates_fresh:
  assumes "check_for_updates fromiso env m = (x, m', flashes)"
  shows "distinct (map fst (map fst flashes)) \<and>
         set (map fst (map fst flashes)) \<inter> processed_events m = {} \<and>
         processed_events m \<union> set (map fst (map fst flashes)) \<subseteq> processed_events m'"
proof -
  from check_for_updates_cases[OF assms]
  consider (a) "m' = m" "flashes = []"
    | (b) prs e acc k where "collect fromiso env prs ([], m) = (Some e, acc, k)" "m' = k" "flashes = []"
    | (c) prs acc k where "collect fromiso env prs ([], m) = (None, acc, k)"
        "m' = k\<lparr>last_check := now env\<rparr>" "flashes = flash_all k env acc"
    by blast
  then show ?thesis
  proof cases
    case a
    then show ?thesis by simp
  next
    case b
    from collect_fresh[OF b(1), of "processed_events m"] b(2,3) show ?thesis by simp
  next
    case c
    have "map fst flashes = acc"
      using c(3) flash_all_fst[of k env acc] by simp
    moreover note collect_fresh[OF c(1), of "processed_events m"]
    ultimately show ?thesis using c(2) by simp
  qed
qed

lemma run_fresh:
  assumes "run fromiso m envs = (m', trace)"
  shows "distinct (map fst (map fst trace)) \<and>
         set (map fst (map fst trace)) \<inter> processed_events m = {} \<and>
         processed_events m \<union> set (map fst (map fst trace)) \<subseteq> processed_events m'"
  using assms
proof (induction envs arbitrary: m trace)
  case Nil
  then show ?case by simp
next
  case (Cons env envs)
  obtain x k flashes where c: "check_for_updates fromiso env m = (x, k, flashes)"
    by (cases "check_for_updates fromiso env m")
  from Cons.prems c obtain later where r: "run fromiso k envs = (m', later)"
    and tr: "trace = flashes @ later"
    by (cases "run fromiso k envs") auto
  define A where "A = map fst (map fst flashes)"
  define B where "B = map fst (map fst later)"
  have ids: "map fst (map fst trace) = A @ B" by (simp add: tr A_def B_def)
  from check_for_updates_fresh[OF c]
  have f: "distinct A" "set A \<inter> processed_events m = {}"
    "processed_events m \<union> set A \<subseteq> processed_events k"
    unfolding A_def by blast+
  from Cons.IH[OF r]
  have i: "distinct B" "set B \<inter> processed_events k = {}"
    "processed_events k \<union> set B \<subseteq> processed_events m'"
    unfolding B_def by blast+
  show ?case unfolding ids using f i by auto
qed

section \<open>The claims\<close>

text \<open>
  C1. At most once. The second component of \<open>run\<close> lists the calls of
  \<open>flash_for_event\<close> of any number of cycles, started from any monitor; each call plays
  at most one pattern. In that list no \<open>event_id\<close> occurs twice, none was in
  \<open>processed_events\<close> at the start, and all of them, with everything that was there at
  the start, are in \<open>processed_events\<close> at the end: nothing is ever removed, and a
  record whose \<open>event_id\<close> is in the set yields no event in any later cycle. The
  \<open>event_id\<close> is a function of the origin, the repository, the number and the raw id,
  so there is at most one flash for each such identity.
\<close>

theorem at_most_once:
  "distinct (map fst (map fst (snd (run fromiso m envs)))) \<and>
   set (map fst (map fst (snd (run fromiso m envs)))) \<inter> processed_events m = {} \<and>
   processed_events m \<union> set (map fst (map fst (snd (run fromiso m envs))))
     \<subseteq> processed_events (fst (run fromiso m envs))"
  using run_fresh[of fromiso m envs "fst (run fromiso m envs)" "snd (run fromiso m envs)"]
  by simp

text \<open>
  The scenario of the specification: the comment is flashed in the first cycle and not
  again when the second cycle fetches it once more.
\<close>

theorem at_most_once_witness:
  "snd (run fromiso_ex monitor_ex [env_ex, env_ex]) =
     [((''comment_o/r_7_IC_1'',
        \<lparr>pr_number = 7, event_type = ''comment'', author = ''bob'',
         created_at = ''2024-01-01T00:00:01Z'', body = Some ''hello''\<rparr>),
       Played ''3, #0000FF,0.3,0, #000000,0.3,0'')] \<and>
   distinct (map fst (map fst (snd (run fromiso_ex monitor_ex [env_ex, env_ex]))))"
proof -
  have "snd (run fromiso_ex monitor_ex [env_ex, env_ex]) =
     [((''comment_o/r_7_IC_1'',
        \<lparr>pr_number = 7, event_type = ''comment'', author = ''bob'',
         created_at = ''2024-01-01T00:00:01Z'', body = Some ''hello''\<rparr>),
       Played ''3, #0000FF,0.3,0, #000000,0.3,0'')]"
    by code_simp
  with at_most_once[of fromiso_ex monitor_ex "[env_ex, env_ex]"] show ?thesis by blast
qed

lemma collect_events:
  assumes c: "collect fromiso env ps ([], m) = (x, acc, k)"
    and t: "(eid, ev) \<in> set acc"
  shows "\<exists>t. fromiso (replace_Z (created_at ev)) = Some (Aware t) \<and> last_check m < t"
proof -
  define Q where "Q = (\<lambda>p::tagged.
    \<exists>t. fromiso (replace_Z (created_at (snd p))) = Some (Aware t) \<and> last_check m < t)"
  have "\<forall>t\<in>set acc. Q t"
  proof (rule collect_all[OF c, where ?m0.0 = m and P = "processed_events m"])
    show "\<forall>t\<in>set []. Q t" by simp
  next
    show "\<forall>P p y events k t. p \<in> set ps \<longrightarrow> processed_events m \<subseteq> P \<longrightarrow>
           get_pr_comments fromiso env (m\<lparr>processed_events := P\<rparr>) (repository p) (number p)
             = (y, events, k) \<longrightarrow> t \<in> set events \<longrightarrow> Q t"
    proof (intro allI impI)
      fix P and p :: pr and y events k t
      assume g: "get_pr_comments fromiso env (m\<lparr>processed_events := P\<rparr>) (repository p) (number p)
             = (y, events, k)" and t: "t \<in> set events"
      obtain eid ev where p: "t = (eid, ev)" by (cases t)
      from get_pr_comments_events[OF g t[unfolded p]]
      show "Q t" unfolding Q_def p by simp
    qed
  next
    show "m = m\<lparr>processed_events := processed_events m\<rparr>" by simp
  next
    show "processed_events m \<subseteq> processed_events m" by simp
  qed
  with t show ?thesis unfolding Q_def by force
qed

text \<open>
  C2. Cutoff: the date of every event flashed in a cycle parses to an instant strictly
  after \<open>last_check\<close> as it was when the cycle began. When the cycle ends, all flashes
  were made by a monitor that still had that \<open>last_check\<close>, and only then is it set,
  to the clock; a cycle left by an exception flashes nothing and keeps \<open>last_check\<close>.
\<close>

theorem cutoff_correctness:
  assumes "check_for_updates fromiso env m = (x, m', flashes)"
  shows "(\<forall>f\<in>set flashes. \<exists>t. fromiso (replace_Z (created_at (snd (fst f)))) = Some (Aware t) \<and>
            last_check m < t) \<and>
         (x = None \<longrightarrow> last_check m' = now env \<and>
            (\<exists>k. last_check k = last_check m \<and> m' = k\<lparr>last_check := now env\<rparr> \<and>
                 flashes = flash_all k env (map fst flashes))) \<and>
         (x \<noteq> None \<longrightarrow> last_check m' = last_check m \<and> flashes = [])"
proof -
  from check_for_updates_cases[OF assms]
  consider (a) e where "x = Some e" "m' = m" "flashes = []"
    | (b) prs e acc k where "collect fromiso env prs ([], m) = (Some e, acc, k)"
        "x = Some e" "m' = k" "flashes = []"
    | (c) prs acc k where "collect fromiso env prs ([], m) = (None, acc, k)" "x = None"
        "m' = k\<lparr>last_check := now env\<rparr>" "flashes = flash_all k env acc"
    by blast
  then show ?thesis
  proof cases
    case a
    then show ?thesis by simp
  next
    case b
    from collect_frame[OF b(1)] obtain P where "k = m\<lparr>processed_events := P\<rparr>" by blast
    with b show ?thesis by simp
  next
    case c
    from collect_frame[OF c(1)] obtain P where k: "k = m\<lparr>processed_events := P\<rparr>" by blast
    have fs: "map fst flashes = acc" using c(4) flash_all_fst by simp
    have 1: "\<forall>f\<in>set flashes. \<exists>t. fromiso (replace_Z (created_at (snd (fst f)))) = Some (Aware t) \<and>
            last_check m < t"
    proof
      fix f
      assume "f \<in> set flashes"
      then have "fst f \<in> set acc" using fs by (metis image_eqI set_map)
      then have "(fst (fst f), snd (fst f)) \<in> set acc" by simp
      from collect_events[OF c(1) this]
      show "\<exists>t. fromiso (replace_Z (created_at (snd (fst f)))) = Some (Aware t) \<and> last_check m < t" .
    qed
    have 2: "last_check k = last_check m \<and> m' = k\<lparr>last_check := now env\<rparr> \<and>
                 flashes = flash_all k env (map fst flashes)"
      using k c(3,4) fs by simp
    from 1 2 c(2,3) show ?thesis by auto
  qed
qed

theorem cutoff_correctness_witness:
  "check_for_updates fromiso_ex env_ex monitor_ex =
     (None,
      monitor_ex\<lparr>processed_events := {''comment_o/r_7_IC_1''}, last_check := 1704067260000000\<rparr>,
      [((''comment_o/r_7_IC_1'',
         \<lparr>pr_number = 7, event_type = ''comment'', author = ''bob'',
          created_at = ''2024-01-01T00:00:01Z'', body = Some ''hello''\<rparr>),
        Played ''3, #0000FF,0.3,0, #000000,0.3,0'')]) \<and>
   (\<exists>t. fromiso_ex (replace_Z ''2024-01-01T00:00:01Z'') = Some (Aware t) \<and>
        last_check monitor_ex < t) \<and>
   snd (snd (check_for_updates fromiso_ex
      (env_of (Decoded (Some [comment_at_cutoff])) (Decoded (Some []))) monitor_ex)) = []"
proof -
  have e: "check_for_updates fromiso_ex env_ex monitor_ex =
     (None,
      monitor_ex\<lparr>processed_events := {''comment_o/r_7_IC_1''}, last_check := 1704067260000000\<rparr>,
      [((''comment_o/r_7_IC_1'',
         \<lparr>pr_number = 7, event_type = ''comment'', author = ''bob'',
          created_at = ''2024-01-01T00:00:01Z'', body = Some ''hello''\<rparr>),
        Played ''3, #0000FF,0.3,0, #000000,0.3,0'')])"
    by code_simp
  have c: "snd (snd (check_for_updates fromiso_ex
      (env_of (Decoded (Some [comment_at_cutoff])) (Decoded (Some []))) monitor_ex)) = []"
    by code_simp
  from cutoff_correctness[OF e]
  have "\<exists>t. fromiso_ex (replace_Z ''2024-01-01T00:00:01Z'') = Some (Aware t) \<and>
        last_check monitor_ex < t"
    by simp
  with e c show ?thesis by blast
qed

lemma get_pr_comments_comments_failed:
  assumes "view_comments env repo n = ProcessFailed \<or> view_comments env repo n = BadJSON"
  shows "get_pr_comments fromiso env m repo n = (None, [], m)"
  using assms
  by (auto simp: get_pr_comments_def try_block_def comments_phase_def caught_def)

lemma reviews_phase_failed:
  assumes "view_reviews env repo n = ProcessFailed \<or> view_reviews env repo n = BadJSON"
  shows "\<exists>e. caught e \<and> reviews_phase fromiso env repo n (events, m1) = (Some e, events, m1)"
  using assms by (auto simp: reviews_phase_def caught_def)

lemma get_pr_comments_reviews_failed:
  assumes "view_reviews env repo n = ProcessFailed \<or> view_reviews env repo n = BadJSON"
  shows "get_pr_comments fromiso env m repo n =
         get_pr_comments fromiso (env\<lparr>view_reviews := \<lambda>a b. Decoded None\<rparr>) m repo n"
proof -
  obtain y e1 m1 where c: "comments_phase fromiso env m repo n = (y, e1, m1)"
    by (cases "comments_phase fromiso env m repo n")
  have c': "comments_phase fromiso (env\<lparr>view_reviews := \<lambda>a b. Decoded None\<rparr>) m repo n = (y, e1, m1)"
    using c by (simp add: comments_phase_def)
  show ?thesis
  proof (cases y)
    case (Some e)
    with c c' show ?thesis by (simp add: get_pr_comments_def try_block_def)
  next
    case None
    from reviews_phase_failed[OF assms, of fromiso e1 m1] obtain e
      where e: "caught e" "reviews_phase fromiso env repo n (e1, m1) = (Some e, e1, m1)" by blast
    have "reviews_phase fromiso (env\<lparr>view_reviews := \<lambda>a b. Decoded None\<rparr>) repo n (e1, m1)
          = (None, e1, m1)"
      by (simp add: reviews_phase_def)
    with None c c' e show ?thesis by (simp add: get_pr_comments_def try_block_def)
  qed
qed


lemma records_loop_append:
  "records_loop step xs (events, m) = (None, ev1, m1) \<Longrightarrow>
     records_loop step (xs @ ys) (events, m) = records_loop step ys (ev1, m1)"
proof (induction xs arbitrary: events m)
  case Nil
  then show ?case by simp
next
  case (Cons y xs)
  show ?case
  proof (cases "step m y")
    case (Inl e)
    with Cons.prems show ?thesis by simp
  next
    case (Inr o1)
    show ?thesis
    proof (cases o1)
      case None
      with Inr Cons.prems have "records_loop step xs (events, m) = (None, ev1, m1)" by simp
      from Cons.IH[OF this] Inr None show ?thesis by simp
    next
      case (Some t)
      obtain eid ev where t: "t = (eid, ev)" by (cases t)
      from Some Inr t Cons.prems
      have "records_loop step xs
              (events @ [(eid, ev)], m\<lparr>processed_events := insert eid (processed_events m)\<rparr>)
            = (None, ev1, m1)"
        by simp
      from Cons.IH[OF this] Inr Some t show ?thesis by simp
    qed
  qed
qed

lemma records_loop_raises:
  assumes "records_loop step pre (events, m) = (None, ev1, m1)" and "step m1 x = Inl e"
  shows "records_loop step (pre @ x # post) (events, m) = (Some e, ev1, m1)"
  using records_loop_append[OF assms(1), of "x # post"] assms(2) by simp

text \<open>
  C3, as the code has it. When the comments cannot be fetched or decoded, the call
  returns no event and the monitor as it was. When the reviews cannot be fetched or
  decoded, the call returns what it returns for a pull request without reviews: the
  events of the comments are kept. None of the three caught exceptions leaves the call,
  and when the call returns, \<open>processed_events\<close> has grown by exactly the ids of the
  events of the list, also when the list is a partial one.
\<close>

theorem subject_failure_keeps_earlier_events:
  "(view_comments env repo n = ProcessFailed \<or> view_comments env repo n = BadJSON \<longrightarrow>
      get_pr_comments fromiso env m repo n = (None, [], m)) \<and>
   (view_reviews env repo n = ProcessFailed \<or> view_reviews env repo n = BadJSON \<longrightarrow>
      get_pr_comments fromiso env m repo n =
      get_pr_comments fromiso (env\<lparr>view_reviews := \<lambda>a b. Decoded None\<rparr>) m repo n) \<and>
   (\<forall>e. fst (get_pr_comments fromiso env m repo n) = Some e \<longrightarrow> \<not> caught e) \<and>
   (fst (get_pr_comments fromiso env m repo n) = None \<longrightarrow>
      processed_events (snd (snd (get_pr_comments fromiso env m repo n))) =
      processed_events m \<union> fst ` set (fst (snd (get_pr_comments fromiso env m repo n))))"
proof -
  obtain x events m' where g: "get_pr_comments fromiso env m repo n = (x, events, m')"
    by (cases "get_pr_comments fromiso env m repo n")
  from get_pr_comments_try_block[OF g] have "\<forall>e. x = Some e \<longrightarrow> \<not> caught e" by auto
  moreover from get_pr_comments_fresh[OF g]
  have "processed_events m' = processed_events m \<union> fst ` set events" by simp
  ultimately show ?thesis
    using get_pr_comments_comments_failed[of env repo n fromiso m]
      get_pr_comments_reviews_failed[of env repo n fromiso m] g
    by simp
qed

theorem subject_failure_keeps_earlier_events_witness:
  "get_pr_comments fromiso_ex (env_of ProcessFailed (Decoded (Some []))) monitor_ex ''o/r'' 7 =
     (None, [], monitor_ex) \<and>
   get_pr_comments fromiso_ex (env_of (Decoded (Some [comment_ex])) BadJSON) monitor_ex ''o/r'' 7 =
     get_pr_comments fromiso_ex
       ((env_of (Decoded (Some [comment_ex])) BadJSON)\<lparr>view_reviews := \<lambda>a b. Decoded None\<rparr>)
       monitor_ex ''o/r'' 7 \<and>
   get_pr_comments fromiso_ex (env_of (Decoded (Some [comment_ex])) BadJSON) monitor_ex ''o/r'' 7 =
     (None,
      [(''comment_o/r_7_IC_1'',
        \<lparr>pr_number = 7, event_type = ''comment'', author = ''bob'',
         created_at = ''2024-01-01T00:00:01Z'', body = Some ''hello''\<rparr>)],
      monitor_ex\<lparr>processed_events := {''comment_o/r_7_IC_1''}\<rparr>)"
proof -
  have a: "view_comments (env_of ProcessFailed (Decoded (Some []))) ''o/r'' 7 = ProcessFailed"
    by (simp add: env_of_def)
  have b: "view_reviews (env_of (Decoded (Some [comment_ex])) BadJSON) ''o/r'' 7 = BadJSON"
    by (simp add: env_of_def)
  have c: "get_pr_comments fromiso_ex (env_of (Decoded (Some [comment_ex])) BadJSON) monitor_ex ''o/r'' 7 =
     (None,
      [(''comment_o/r_7_IC_1'',
        \<lparr>pr_number = 7, event_type = ''comment'', author = ''bob'',
         created_at = ''2024-01-01T00:00:01Z'', body = Some ''hello''\<rparr>)],
      monitor_ex\<lparr>processed_events := {''comment_o/r_7_IC_1''}\<rparr>)"
    by code_simp
  from subject_failure_keeps_earlier_events
         [of "env_of ProcessFailed (Decoded (Some []))" "''o/r''" 7 fromiso_ex monitor_ex] a
  have 1: "get_pr_comments fromiso_ex (env_of ProcessFailed (Decoded (Some []))) monitor_ex ''o/r'' 7 =
     (None, [], monitor_ex)"
    by simp
  from subject_failure_keeps_earlier_events
         [of "env_of (Decoded (Some [comment_ex])) BadJSON" "''o/r''" 7 fromiso_ex monitor_ex] b
  have 2: "get_pr_comments fromiso_ex (env_of (Decoded (Some [comment_ex])) BadJSON) monitor_ex ''o/r'' 7 =
     get_pr_comments fromiso_ex
       ((env_of (Decoded (Some [comment_ex])) BadJSON)\<lparr>view_reviews := \<lambda>a b. Decoded None\<rparr>)
       monitor_ex ''o/r'' 7"
    by simp
  from 1 2 c show ?thesis by blast
qed

text \<open>
  The claim as it is written fails: the reviews of the pull request cannot be fetched,
  and the call still returns the event of the comment, with its id added to
  \<open>processed_events\<close>.
\<close>

theorem subject_failure_counterexample:
  "view_reviews (env_of (Decoded (Some [comment_ex])) ProcessFailed) ''o/r'' 7 = ProcessFailed \<and>
   fst (snd (get_pr_comments fromiso_ex (env_of (Decoded (Some [comment_ex])) ProcessFailed)
               monitor_ex ''o/r'' 7)) \<noteq> [] \<and>
   processed_events
     (snd (snd (get_pr_comments fromiso_ex (env_of (Decoded (Some [comment_ex])) ProcessFailed)
                  monitor_ex ''o/r'' 7))) \<noteq> processed_events monitor_ex"
proof -
  have "get_pr_comments fromiso_ex (env_of (Decoded (Some [comment_ex])) ProcessFailed)
          monitor_ex ''o/r'' 7 =
     (None,
      [(''comment_o/r_7_IC_1'',
        \<lparr>pr_number = 7, event_type = ''comment'', author = ''bob'',
         created_at = ''2024-01-01T00:00:01Z'', body = Some ''hello''\<rparr>)],
      monitor_ex\<lparr>processed_events := {''comment_o/r_7_IC_1''}\<rparr>)"
    by code_simp
  then show ?thesis by (simp add: env_of_def monitor_ex_def)
qed

lemma comments_phase_raises:
  assumes "view_comments env repo n = Decoded (Some (pre @ c # post))"
    and "records_loop (\<lambda>k. comment_step fromiso k repo n) pre ([], m) = (None, ev1, m1)"
    and "comment_step fromiso m1 repo n c = Inl e"
  shows "comments_phase fromiso env m repo n = (Some e, ev1, m1)"
  using records_loop_raises[OF assms(2), of c e post] assms(1,3)
  by (simp add: comments_phase_def)

lemma reviews_phase_raises:
  assumes "view_reviews env repo n = Decoded (Some (pre @ r # post))"
    and "records_loop (\<lambda>k. review_step fromiso k repo n) pre (ev0, m0) = (None, ev1, m1)"
    and "review_step fromiso m1 repo n r = Inl e"
  shows "reviews_phase fromiso env repo n (ev0, m0) = (Some e, ev1, m1)"
  using records_loop_raises[OF assms(2), of r e post] assms(1,3)
  by (simp add: reviews_phase_def)

text \<open>
  C5, as the code has it. A record that lacks a key the code reads raises \<open>KeyError\<close>
  (a comment without \<open>'createdAt'\<close> or a review without \<open>'state'\<close> always does), and
  \<open>KeyError\<close> ends the work on the pull request: the call returns the events of the
  records before the malformed one, and neither that record nor any record after it, in
  this batch or in the reviews after a malformed comment, is looked at.
\<close>

theorem malformed_record_ends_subject:
  "(c_createdAt c = None \<longrightarrow> comment_step fromiso m1 repo n c = Inl KeyError) \<and>
   (r_state r = None \<longrightarrow> review_step fromiso m1 repo n r = Inl KeyError) \<and>
   (view_comments env repo n = Decoded (Some (pre @ c # post)) \<and>
    records_loop (\<lambda>k. comment_step fromiso k repo n) pre ([], m) = (None, ev1, m1) \<and>
    comment_step fromiso m1 repo n c = Inl KeyError \<longrightarrow>
      get_pr_comments fromiso env m repo n = (None, ev1, m1)) \<and>
   (comments_phase fromiso env m repo n = (None, ev0, m0) \<and>
    view_reviews env repo n = Decoded (Some (rpre @ r # rpost)) \<and>
    records_loop (\<lambda>k. review_step fromiso k repo n) rpre (ev0, m0) = (None, ev1, m1) \<and>
    review_step fromiso m1 repo n r = Inl KeyError \<longrightarrow>
      get_pr_comments fromiso env m repo n = (None, ev1, m1))"
proof (intro conjI impI)
  assume "c_createdAt c = None"
  then show "comment_step fromiso m1 repo n c = Inl KeyError"
    by (simp add: comment_step_def bind_exn_def getitem_def)
next
  assume "r_state r = None"
  then show "review_step fromiso m1 repo n r = Inl KeyError"
    by (simp add: review_step_def bind_exn_def getitem_def)
next
  assume a: "view_comments env repo n = Decoded (Some (pre @ c # post)) \<and>
    records_loop (\<lambda>k. comment_step fromiso k repo n) pre ([], m) = (None, ev1, m1) \<and>
    comment_step fromiso m1 repo n c = Inl KeyError"
  then have "comments_phase fromiso env m repo n = (Some KeyError, ev1, m1)"
    using comments_phase_raises by blast
  then show "get_pr_comments fromiso env m repo n = (None, ev1, m1)"
    by (simp add: get_pr_comments_def try_block_def caught_def)
next
  assume a: "comments_phase fromiso env m repo n = (None, ev0, m0) \<and>
    view_reviews env repo n = Decoded (Some (rpre @ r # rpost)) \<and>
    records_loop (\<lambda>k. review_step fromiso k repo n) rpre (ev0, m0) = (None, ev1, m1) \<and>
    review_step fromiso m1 repo n r = Inl KeyError"
  then have "reviews_phase fromiso env repo n (ev0, m0) = (Some KeyError, ev1, m1)"
    using reviews_phase_raises by blast
  with a show "get_pr_comments fromiso env m repo n = (None, ev1, m1)"
    by (simp add: get_pr_comments_def try_block_def caught_def)
qed

theorem malformed_record_ends_subject_witness:
  "comment_step fromiso_ex monitor_ex ''o/r'' 7 comment_nobody = Inl KeyError \<and>
   get_pr_comments fromiso_ex
     (env_of (Decoded (Some [comment_nobody, comment_ex])) (Decoded (Some []))) monitor_ex ''o/r'' 7
   = (None, [], monitor_ex)"
proof -
  have s: "comment_step fromiso_ex monitor_ex ''o/r'' 7 comment_nobody = Inl KeyError"
    by code_simp
  have v: "view_comments (env_of (Decoded (Some [comment_nobody, comment_ex])) (Decoded (Some [])))
             ''o/r'' 7 = Decoded (Some ([] @ comment_nobody # [comment_ex]))"
    by (simp add: env_of_def)
  have l: "records_loop (\<lambda>k. comment_step fromiso_ex k ''o/r'' 7) [] ([], monitor_ex) =
             (None, [], monitor_ex)"
    by simp
  from malformed_record_ends_subject
         [of comment_nobody fromiso_ex monitor_ex "''o/r''" 7 _
             "env_of (Decoded (Some [comment_nobody, comment_ex])) (Decoded (Some []))"
             "[]" "[comment_ex]" monitor_ex "[]"]
       s v l
  have "get_pr_comments fromiso_ex
     (env_of (Decoded (Some [comment_nobody, comment_ex])) (Decoded (Some []))) monitor_ex ''o/r'' 7
   = (None, [], monitor_ex)"
    by blast
  with s show ?thesis by blast
qed

text \<open>
  The claim as it is written fails: the comment without a body is followed by the
  comment of the first example, which alone yields an event, and the batch of the two
  yields none.
\<close>

theorem malformed_record_counterexample:
  "comment_step fromiso_ex monitor_ex ''o/r'' 7 comment_nobody = Inl KeyError \<and>
   fst (snd (get_pr_comments fromiso_ex
     (env_of (Decoded (Some [comment_nobody, comment_ex])) (Decoded (Some []))) monitor_ex ''o/r'' 7))
   = [] \<and>
   fst (snd (get_pr_comments fromiso_ex
     (env_of (Decoded (Some [comment_ex])) (Decoded (Some []))) monitor_ex ''o/r'' 7))
   = [(''comment_o/r_7_IC_1'',
        \<lparr>pr_number = 7, event_type = ''comment'', author = ''bob'',
         created_at = ''2024-01-01T00:00:01Z'', body = Some ''hello''\<rparr>)]"
  by code_simp

text \<open>
  C4. Excerpts, on the inputs where the code departs from the claim. The body of a
  review is stored as it is (line 187), so an approval with 101 characters keeps all of
  them, where the comment with the same body is cut to 100 characters and the marker
  (line 156). And a missing body is the empty string for a review only: a comment
  without \<open>'body'\<close> raises \<open>KeyError\<close>.
\<close>

theorem review_body_not_truncated:
  "get_pr_comments fromiso_ex (env_of (Decoded (Some [])) (Decoded (Some [review_long])))
     monitor_ex ''o/r'' 7 =
     (None,
      [(''review_o/r_7_PRR_1'',
        \<lparr>pr_number = 7, event_type = ''approved'', author = ''bob'',
         created_at = ''2024-01-01T00:00:01Z'', body = Some (replicate 101 (CHR ''x''))\<rparr>)],
      monitor_ex\<lparr>processed_events := {''review_o/r_7_PRR_1''}\<rparr>) \<and>
   get_pr_comments fromiso_ex (env_of (Decoded (Some [comment_long])) (Decoded (Some [])))
     monitor_ex ''o/r'' 7 =
     (None,
      [(''comment_o/r_7_IC_3'',
        \<lparr>pr_number = 7, event_type = ''comment'', author = ''bob'',
         created_at = ''2024-01-01T00:00:01Z'',
         body = Some (replicate 100 (CHR ''x'') @ ''...'')\<rparr>)],
      monitor_ex\<lparr>processed_events := {''comment_o/r_7_IC_3''}\<rparr>) \<and>
   review_step fromiso_ex monitor_ex ''o/r'' 7 review_nobody =
     Inr (Some (''review_o/r_7_PRR_2'',
       \<lparr>pr_number = 7, event_type = ''approved'', author = ''bob'',
        created_at = ''2024-01-01T00:00:01Z'', body = Some []\<rparr>)) \<and>
   comment_step fromiso_ex monitor_ex ''o/r'' 7 comment_nobody = Inl KeyError"
  by code_simp

lemma flash_all_no_device:
  assumes "blink1 k = None"
  shows "snd ` set (flash_all k env acc) \<subseteq> {NoDevice}"
  using assms by (auto simp: flash_all_def flash_for_event_def)

lemma check_for_updates_blink1:
  assumes "check_for_updates fromiso env m = (x, m', flashes)"
  shows "blink1 m' = blink1 m \<and> (blink1 m = None \<longrightarrow> snd ` set flashes \<subseteq> {NoDevice})"
proof -
  from check_for_updates_cases[OF assms]
  consider (a) "m' = m" "flashes = []"
    | (b) prs e acc k where "collect fromiso env prs ([], m) = (Some e, acc, k)" "m' = k" "flashes = []"
    | (c) prs acc k where "collect fromiso env prs ([], m) = (None, acc, k)"
        "m' = k\<lparr>last_check := now env\<rparr>" "flashes = flash_all k env acc"
    by blast
  then show ?thesis
  proof cases
    case a
    then show ?thesis by simp
  next
    case b
    from collect_frame[OF b(1)] obtain P where "k = m\<lparr>processed_events := P\<rparr>" by blast
    with b show ?thesis by simp
  next
    case c
    from collect_frame[OF c(1)] obtain P where k: "k = m\<lparr>processed_events := P\<rparr>" by blast
    then have "blink1 k = blink1 m" by simp
    with c flash_all_no_device[of k env acc] show ?thesis by simp
  qed
qed

lemma run_blink1:
  assumes "run fromiso m envs = (m', trace)"
  shows "blink1 m' = blink1 m \<and> (blink1 m = None \<longrightarrow> snd ` set trace \<subseteq> {NoDevice})"
  using assms
proof (induction envs arbitrary: m trace)
  case Nil
  then show ?case by simp
next
  case (Cons env envs)
  obtain x k flashes where c: "check_for_updates fromiso env m = (x, k, flashes)"
    by (cases "check_for_updates fromiso env m")
  from Cons.prems c obtain later where r: "run fromiso k envs = (m', later)"
    and tr: "trace = flashes @ later"
    by (cases "run fromiso k envs") auto
  from check_for_updates_blink1[OF c] Cons.IH[OF r] show ?case unfolding tr by auto
qed

text \<open>
  C6, as the code has it. When \<open>Blink1()\<close> raises \<open>Blink1ConnectionFailed\<close>, the
  constructor catches it and returns a monitor without a device, provided \<open>gh\<close> is
  authenticated; the monitor runs, and each of its flashes is skipped for want of a
  device, in every cycle. What makes the constructor fail is \<open>gh\<close>: not authenticated,
  or not installed.
\<close>

theorem device_unavailable_degrades:
  "init user interval test clock Blink1ConnectionFailed Authenticated =
     Inr \<lparr>username = user, poll_interval = interval, test_mode = test, processed_events = {},
          last_check = clock - 3600000000, blink1 = None\<rparr> \<and>
   (blink1 m = None \<longrightarrow>
      snd ` set (snd (run fromiso m envs)) \<subseteq> {NoDevice} \<and>
      blink1 (fst (run fromiso m envs)) = None) \<and>
   init user interval test clock b NotAuthenticated = Inl ''gh CLI authentication required'' \<and>
   init user interval test clock b GhNotFound = Inl ''gh CLI not installed''"
  using run_blink1[of fromiso m envs "fst (run fromiso m envs)" "snd (run fromiso m envs)"]
  by (simp add: init_def check_gh_cli_def init_blink1_def)

theorem device_unavailable_degrades_witness:
  "blink1 (monitor_ex\<lparr>blink1 := None\<rparr>) = None \<and>
   snd ` set (snd (run fromiso_ex (monitor_ex\<lparr>blink1 := None\<rparr>) [env_ex, env_ex])) \<subseteq> {NoDevice} \<and>
   snd (run fromiso_ex (monitor_ex\<lparr>blink1 := None\<rparr>) [env_ex, env_ex]) =
     [((''comment_o/r_7_IC_1'',
        \<lparr>pr_number = 7, event_type = ''comment'', author = ''bob'',
         created_at = ''2024-01-01T00:00:01Z'', body = Some ''hello''\<rparr>),
       NoDevice)]"
proof -
  have b: "blink1 (monitor_ex\<lparr>blink1 := None\<rparr>) = None" by simp
  have e: "snd (run fromiso_ex (monitor_ex\<lparr>blink1 := None\<rparr>) [env_ex, env_ex]) =
     [((''comment_o/r_7_IC_1'',
        \<lparr>pr_number = 7, event_type = ''comment'', author = ''bob'',
         created_at = ''2024-01-01T00:00:01Z'', body = Some ''hello''\<rparr>),
       NoDevice)]"
    by code_simp
  from device_unavailable_degrades[of _ _ _ _ "monitor_ex\<lparr>blink1 := None\<rparr>" fromiso_ex "[env_ex, env_ex]"] b
  have "snd ` set (snd (run fromiso_ex (monitor_ex\<lparr>blink1 := None\<rparr>) [env_ex, env_ex])) \<subseteq> {NoDevice}"
    by blast
  with b e show ?thesis by blast
qed

text \<open>
  The claim as it is written fails: with no device at startup the constructor returns a
  monitor, and the first cycle of that monitor runs to its end.
\<close>

theorem device_unavailable_counterexample:
  "init ''me'' 60 False 1704070800000000 Blink1ConnectionFailed Authenticated =
     Inr (monitor_ex\<lparr>blink1 := None\<rparr>) \<and>
   check_for_updates fromiso_ex env_ex (monitor_ex\<lparr>blink1 := None\<rparr>) =
     (None,
      monitor_ex\<lparr>processed_events := {''comment_o/r_7_IC_1''}, last_check := 1704067260000000,
        blink1 := None\<rparr>,
      [((''comment_o/r_7_IC_1'',
         \<lparr>pr_number = 7, event_type = ''comment'', author = ''bob'',
          created_at = ''2024-01-01T00:00:01Z'', body = Some ''hello''\<rparr>),
        NoDevice)])"
  by code_simp

section \<open>Lemmas about the events that a record yields\<close>


lemma review_step_SomeI:
  assumes "r_state r = Some st" "st \<in> {''APPROVED'', ''CHANGES_REQUESTED'', ''COMMENTED''}"
    and "r_submittedAt r = Some ts" "fromiso (replace_Z ts) = Some (Aware t)" "last_check m < t"
    and "r_author r = Some (Some l)" "test_mode m \<or> l \<noteq> username m"
    and "r_id r = Some raw" "event_id ''review'' repo n raw \<notin> processed_events m"
  shows "review_step fromiso m repo n r =
    Inr (Some (event_id ''review'' repo n raw,
      \<lparr>pr_number = n, event_type = review_kind st, author = l, created_at = ts,
       body = Some (case r_body r of None \<Rightarrow> [] | Some b \<Rightarrow> b)\<rparr>))"
  using assms
  by (auto simp: review_step_def bind_exn_def getitem_def parse_time_def after_check_def
      author_login_def Let_def)

lemma records_loop_produces:
  assumes pre: "records_loop step pre (ev0, m0) = (None, ev1, m1)"
    and st: "step m1 x = Inr (Some t)"
    and all: "records_loop step (pre @ x # post) (ev0, m0) = (y, ev', m')"
  shows "t \<in> set ev'"
proof -
  obtain eid ev where t: "t = (eid, ev)" by (cases t)
  from records_loop_append[OF pre, of "x # post"] all st t
  have "records_loop step post
          (ev1 @ [(eid, ev)], m1\<lparr>processed_events := insert eid (processed_events m1)\<rparr>)
        = (y, ev', m')"
    by simp
  from records_loop_prefix[OF this] have "take (Suc (length ev1)) ev' = ev1 @ [(eid, ev)]" by simp
  then have "(eid, ev) \<in> set (take (Suc (length ev1)) ev')" by simp
  then show ?thesis unfolding t by (rule in_set_takeD)
qed



lemma get_pr_comments_has_review:
  assumes c: "comments_phase fromiso env m repo n = (None, e1, m1)"
    and r: "reviews_phase fromiso env repo n (e1, m1) = (y, e2, m2)"
    and t: "t \<in> set e2"
    and g: "get_pr_comments fromiso env m repo n = (x, events, m')"
  shows "t \<in> set events"
proof -
  from get_pr_comments_try_block[OF g] obtain z
    where tb: "try_block fromiso env m repo n = (z, events, m')" by blast
  with c r have "events = e2" by (simp add: try_block_def)
  with t show ?thesis by simp
qed

lemma comments_phase_frame:
  assumes "comments_phase fromiso env m repo n = (y, e1, m1)"
  shows "\<exists>P. m1 = m\<lparr>processed_events := P\<rparr>"
proof -
  have triv: "m = m\<lparr>processed_events := processed_events m\<rparr>" by simp
  show ?thesis
  proof (cases "view_comments env repo n")
    case ProcessFailed
    with assms have "m1 = m" by (simp add: comments_phase_def)
    with triv show ?thesis by blast
  next
    case BadJSON
    with assms have "m1 = m" by (simp add: comments_phase_def)
    with triv show ?thesis by blast
  next
    case (Decoded d)
    show ?thesis
    proof (cases d)
      case None
      with assms Decoded have "m1 = m" by (simp add: comments_phase_def)
      with triv show ?thesis by blast
    next
      case (Some cs)
      with assms Decoded
      have "records_loop (\<lambda>k. comment_step fromiso k repo n) cs ([], m) = (y, e1, m1)"
        by (simp add: comments_phase_def)
      from records_loop_frame[OF this] show ?thesis .
    qed
  qed
qed


lemma get_pr_comments_yields_review:
  assumes g: "get_pr_comments fromiso env m repo n = (x, events, m')"
    and cp: "comments_phase fromiso env m repo n = (None, ev0, m0)"
    and v: "view_reviews env repo n = Decoded (Some (pre @ r # post))"
    and l: "records_loop (\<lambda>k. review_step fromiso k repo n) pre (ev0, m0) = (None, ev1, m1)"
    and r: "r_state r = Some st" "st \<in> {''APPROVED'', ''CHANGES_REQUESTED'', ''COMMENTED''}"
      "r_submittedAt r = Some ts" "fromiso (replace_Z ts) = Some (Aware t)" "last_check m < t"
      "r_author r = Some (Some a)" "test_mode m \<or> a \<noteq> username m"
      "r_id r = Some raw" "event_id ''review'' repo n raw \<notin> processed_events m1"
  shows "(event_id ''review'' repo n raw,
           \<lparr>pr_number = n, event_type = review_kind st, author = a, created_at = ts,
            body = Some (case r_body r of None \<Rightarrow> [] | Some b \<Rightarrow> b)\<rparr>) \<in> set events"
proof -
  from comments_phase_frame[OF cp] obtain P0 where m0: "m0 = m\<lparr>processed_events := P0\<rparr>" by blast
  from records_loop_frame[OF l] obtain P where "m1 = m0\<lparr>processed_events := P\<rparr>" by blast
  with m0 have m1: "m1 = m\<lparr>processed_events := P\<rparr>" by simp
  have st: "review_step fromiso m1 repo n r =
    Inr (Some (event_id ''review'' repo n raw,
      \<lparr>pr_number = n, event_type = review_kind st, author = a, created_at = ts,
       body = Some (case r_body r of None \<Rightarrow> [] | Some b \<Rightarrow> b)\<rparr>))"
    by (rule review_step_SomeI[where t = t]) (use r m1 in simp_all)
  obtain y e' k where all:
    "records_loop (\<lambda>k. review_step fromiso k repo n) (pre @ r # post) (ev0, m0) = (y, e', k)"
    by (cases "records_loop (\<lambda>k. review_step fromiso k repo n) (pre @ r # post) (ev0, m0)")
  from records_loop_produces[OF l st all]
  have "(event_id ''review'' repo n raw,
           \<lparr>pr_number = n, event_type = review_kind st, author = a, created_at = ts,
            body = Some (case r_body r of None \<Rightarrow> [] | Some b \<Rightarrow> b)\<rparr>) \<in> set e'" .
  moreover from all v have "reviews_phase fromiso env repo n (ev0, m0) = (y, e', k)"
    by (simp add: reviews_phase_def)
  ultimately show ?thesis using get_pr_comments_has_review[OF cp _ _ g] by blast
qed



section \<open>Lemmas about records that yield nothing\<close>

lemma records_loop_filter:
  assumes "\<forall>m x. \<not> keep x \<longrightarrow> step m x = Inr None"
  shows "records_loop step (filter keep xs) (events, m) = records_loop step xs (events, m)"
proof (induction xs arbitrary: events m)
  case Nil
  show ?case by simp
next
  case (Cons y ys)
  show ?case
  proof (cases "keep y")
    case False
    with assms have "step m y = Inr None" by blast
    with False Cons.IH show ?thesis by simp
  next
    case True
    show ?thesis
    proof (cases "step m y")
      case (Inl e)
      with True show ?thesis by simp
    next
      case (Inr o1)
      show ?thesis
      proof (cases o1)
        case None
        with True Inr Cons.IH show ?thesis by simp
      next
        case (Some t)
        obtain eid ev where "t = (eid, ev)" by (cases t)
        with True Inr Some Cons.IH show ?thesis by simp
      qed
    qed
  qed
qed

lemma review_step_unrecognised:
  assumes "r_state r = Some st" "st \<notin> {''APPROVED'', ''CHANGES_REQUESTED'', ''COMMENTED''}"
  shows "review_step fromiso m repo n r = Inr None"
  using assms by (simp add: review_step_def bind_exn_def getitem_def)

lemma review_kind_cases:
  assumes "st \<in> {''APPROVED'', ''CHANGES_REQUESTED'', ''COMMENTED''}"
  shows "st = ''APPROVED'' \<and> review_kind st = ''approved'' \<or>
         st = ''CHANGES_REQUESTED'' \<and> review_kind st = ''changes_requested'' \<or>
         st = ''COMMENTED'' \<and> review_kind st = ''commented''"
  using assms by (auto simp: review_kind_def)

section \<open>Lemmas about the two modes\<close>

lemma comment_step_at_or_before_check:
  assumes "c_createdAt c = Some ts" "fromiso (replace_Z ts) = Some (Aware t)" "t \<le> last_check m"
    and "test_mode m"
  shows "comment_step fromiso m repo n c = Inr None"
  using assms
  by (simp add: comment_step_def bind_exn_def getitem_def parse_time_def after_check_def)

lemma comment_step_processed:
  assumes "c_createdAt c = Some ts" "fromiso (replace_Z ts) = Some (Aware t)" "test_mode m"
    and "c_id c = Some raw" "event_id ''comment'' repo n raw \<in> processed_events m"
  shows "comment_step fromiso m repo n c = Inr None"
  using assms
  by (simp add: comment_step_def bind_exn_def getitem_def parse_time_def after_check_def Let_def)

lemma review_step_at_or_before_check:
  assumes "r_state r = Some st" "r_submittedAt r = Some ts"
    and "fromiso (replace_Z ts) = Some (Aware t)" "t \<le> last_check m" "test_mode m"
  shows "review_step fromiso m repo n r = Inr None"
  using assms
  by (simp add: review_step_def bind_exn_def getitem_def parse_time_def after_check_def)

lemma review_step_processed:
  assumes "r_state r = Some st" "r_submittedAt r = Some ts"
    and "fromiso (replace_Z ts) = Some (Aware t)" "test_mode m"
    and "r_id r = Some raw" "event_id ''review'' repo n raw \<in> processed_events m"
  shows "review_step fromiso m repo n r = Inr None"
  using assms
  by (simp add: review_step_def bind_exn_def getitem_def parse_time_def after_check_def Let_def)

lemma comment_step_other_author:
  assumes "c_author c = Some (Some a)" "a \<noteq> username m"
  shows "comment_step fromiso (m\<lparr>test_mode := True\<rparr>) repo n c =
         comment_step fromiso (m\<lparr>test_mode := False\<rparr>) repo n c"
  using assms
  by (simp add: comment_step_def bind_exn_def getitem_def author_login_def Let_def
      cong: sum.case_cong if_cong)

lemma review_step_other_author:
  assumes "r_author r = Some (Some a)" "a \<noteq> username m"
  shows "review_step fromiso (m\<lparr>test_mode := True\<rparr>) repo n r =
         review_step fromiso (m\<lparr>test_mode := False\<rparr>) repo n r"
  using assms
  by (simp add: review_step_def bind_exn_def getitem_def author_login_def Let_def
      cong: sum.case_cong if_cong)

text \<open>
  C10. Test mode lifts the author filter and nothing else. In either mode, every event
  that \<open>get_pr_comments\<close> returns has a date strictly after \<open>last_check\<close> and an id that
  was not in \<open>processed_events\<close>. In test mode a comment or review, also one of the
  monitored user, yields nothing when its date is at or before \<open>last_check\<close>, and
  nothing when its id is in \<open>processed_events\<close>. On a record of another author the two
  modes do the same.
\<close>

theorem test_mode_keeps_cutoff_and_ledger:
  "(get_pr_comments fromiso env m repo n = (x, events, m') \<and> (eid, ev) \<in> set events \<longrightarrow>
      (\<exists>t. fromiso (replace_Z (created_at ev)) = Some (Aware t) \<and> last_check m < t) \<and>
      eid \<notin> processed_events m) \<and>
   (test_mode m \<and> c_createdAt c = Some ts \<and> fromiso (replace_Z ts) = Some (Aware t) \<and>
    t \<le> last_check m \<longrightarrow> comment_step fromiso m repo n c = Inr None) \<and>
   (test_mode m \<and> c_createdAt c = Some ts \<and> fromiso (replace_Z ts) = Some (Aware t) \<and>
    c_id c = Some raw \<and> event_id ''comment'' repo n raw \<in> processed_events m \<longrightarrow>
      comment_step fromiso m repo n c = Inr None) \<and>
   (test_mode m \<and> r_state r = Some st \<and> r_submittedAt r = Some rts \<and>
    fromiso (replace_Z rts) = Some (Aware rt) \<and> rt \<le> last_check m \<longrightarrow>
      review_step fromiso m repo n r = Inr None) \<and>
   (test_mode m \<and> r_state r = Some st \<and> r_submittedAt r = Some rts \<and>
    fromiso (replace_Z rts) = Some (Aware rt) \<and>
    r_id r = Some rraw \<and> event_id ''review'' repo n rraw \<in> processed_events m \<longrightarrow>
      review_step fromiso m repo n r = Inr None) \<and>
   (c_author c = Some (Some a) \<and> a \<noteq> username m \<longrightarrow>
      comment_step fromiso (m\<lparr>test_mode := True\<rparr>) repo n c =
      comment_step fromiso (m\<lparr>test_mode := False\<rparr>) repo n c) \<and>
   (r_author r = Some (Some ra) \<and> ra \<noteq> username m \<longrightarrow>
      review_step fromiso (m\<lparr>test_mode := True\<rparr>) repo n r =
      review_step fromiso (m\<lparr>test_mode := False\<rparr>) repo n r)"
proof (intro conjI impI)
  assume a: "get_pr_comments fromiso env m repo n = (x, events, m') \<and> (eid, ev) \<in> set events"
  then have g: "get_pr_comments fromiso env m repo n = (x, events, m')"
    and t: "(eid, ev) \<in> set events" by blast+
  from get_pr_comments_events[OF g t]
  show "\<exists>t. fromiso (replace_Z (created_at ev)) = Some (Aware t) \<and> last_check m < t" by blast
  from t have "eid \<in> fst ` set events" by force
  with get_pr_comments_fresh[OF g] show "eid \<notin> processed_events m" by blast
next
  assume "test_mode m \<and> c_createdAt c = Some ts \<and> fromiso (replace_Z ts) = Some (Aware t) \<and>
    t \<le> last_check m"
  then show "comment_step fromiso m repo n c = Inr None"
    using comment_step_at_or_before_check by blast
next
  assume "test_mode m \<and> c_createdAt c = Some ts \<and> fromiso (replace_Z ts) = Some (Aware t) \<and>
    c_id c = Some raw \<and> event_id ''comment'' repo n raw \<in> processed_events m"
  then show "comment_step fromiso m repo n c = Inr None"
    using comment_step_processed by blast
next
  assume "test_mode m \<and> r_state r = Some st \<and> r_submittedAt r = Some rts \<and>
    fromiso (replace_Z rts) = Some (Aware rt) \<and> rt \<le> last_check m"
  then show "review_step fromiso m repo n r = Inr None"
    using review_step_at_or_before_check by blast
next
  assume "test_mode m \<and> r_state r = Some st \<and> r_submittedAt r = Some rts \<and>
    fromiso (replace_Z rts) = Some (Aware rt) \<and>
    r_id r = Some rraw \<and> event_id ''review'' repo n rraw \<in> processed_events m"
  then show "review_step fromiso m repo n r = Inr None"
    using review_step_processed by blast
next
  assume "c_author c = Some (Some a) \<and> a \<noteq> username m"
  then show "comment_step fromiso (m\<lparr>test_mode := True\<rparr>) repo n c =
      comment_step fromiso (m\<lparr>test_mode := False\<rparr>) repo n c"
    using comment_step_other_author by blast
next
  assume "r_author r = Some (Some ra) \<and> ra \<noteq> username m"
  then show "review_step fromiso (m\<lparr>test_mode := True\<rparr>) repo n r =
      review_step fromiso (m\<lparr>test_mode := False\<rparr>) repo n r"
    using review_step_other_author by blast
qed

theorem test_mode_keeps_cutoff_and_ledger_witness:
  "comment_step fromiso_ex monitor_test ''o/r'' 7 comment_own_at_cutoff = Inr None \<and>
   comment_step fromiso_ex (monitor_test\<lparr>processed_events := {''comment_o/r_7_IC_4''}\<rparr>)
     ''o/r'' 7 comment_own = Inr None \<and>
   comment_step fromiso_ex monitor_test ''o/r'' 7 comment_own =
     Inr (Some (''comment_o/r_7_IC_4'',
       \<lparr>pr_number = 7, event_type = ''comment'', author = ''me'',
        created_at = ''2024-01-01T00:00:01Z'', body = Some ''mine''\<rparr>)) \<and>
   (\<exists>t. fromiso_ex (replace_Z ''2024-01-01T00:00:01Z'') = Some (Aware t) \<and>
        last_check monitor_test < t) \<and>
   ''comment_o/r_7_IC_4'' \<notin> processed_events monitor_test"
proof -
  have h1: "test_mode monitor_test \<and>
    c_createdAt comment_own_at_cutoff = Some ''2024-01-01T00:00:00Z'' \<and>
    fromiso_ex (replace_Z ''2024-01-01T00:00:00Z'') = Some (Aware 1704067200000000) \<and>
    1704067200000000 \<le> last_check monitor_test"
    by code_simp
  have a: "comment_step fromiso_ex monitor_test ''o/r'' 7 comment_own_at_cutoff = Inr None"
    by (rule test_mode_keeps_cutoff_and_ledger[where fromiso = fromiso_ex, THEN conjunct2, THEN conjunct1, THEN mp, OF h1])
  have h2: "test_mode (monitor_test\<lparr>processed_events := {''comment_o/r_7_IC_4''}\<rparr>) \<and>
    c_createdAt comment_own = Some ''2024-01-01T00:00:01Z'' \<and>
    fromiso_ex (replace_Z ''2024-01-01T00:00:01Z'') = Some (Aware 1704067201000000) \<and>
    c_id comment_own = Some ''IC_4'' \<and>
    event_id ''comment'' ''o/r'' 7 ''IC_4''
      \<in> processed_events (monitor_test\<lparr>processed_events := {''comment_o/r_7_IC_4''}\<rparr>)"
    by code_simp
  have b: "comment_step fromiso_ex (monitor_test\<lparr>processed_events := {''comment_o/r_7_IC_4''}\<rparr>)
     ''o/r'' 7 comment_own = Inr None"
    by (rule test_mode_keeps_cutoff_and_ledger
          [where fromiso = fromiso_ex, THEN conjunct2, THEN conjunct2, THEN conjunct1, THEN mp, OF h2])
  have c: "comment_step fromiso_ex monitor_test ''o/r'' 7 comment_own =
     Inr (Some (''comment_o/r_7_IC_4'',
       \<lparr>pr_number = 7, event_type = ''comment'', author = ''me'',
        created_at = ''2024-01-01T00:00:01Z'', body = Some ''mine''\<rparr>))"
    by code_simp
  have h3: "get_pr_comments fromiso_ex env_own monitor_test ''o/r'' 7 =
     (None,
      [(''comment_o/r_7_IC_4'',
        \<lparr>pr_number = 7, event_type = ''comment'', author = ''me'',
         created_at = ''2024-01-01T00:00:01Z'', body = Some ''mine''\<rparr>),
       (''comment_o/r_7_IC_1'',
        \<lparr>pr_number = 7, event_type = ''comment'', author = ''bob'',
         created_at = ''2024-01-01T00:00:01Z'', body = Some ''hello''\<rparr>),
       (''review_o/r_7_PRR_4'',
        \<lparr>pr_number = 7, event_type = ''approved'', author = ''me'',
         created_at = ''2024-01-01T00:00:01Z'', body = Some ''ok''\<rparr>)],
      monitor_test\<lparr>processed_events :=
        {''review_o/r_7_PRR_4'', ''comment_o/r_7_IC_1'', ''comment_o/r_7_IC_4''}\<rparr>) \<and>
     (''comment_o/r_7_IC_4'',
        \<lparr>pr_number = 7, event_type = ''comment'', author = ''me'',
         created_at = ''2024-01-01T00:00:01Z'', body = Some ''mine''\<rparr>) \<in> set
      [(''comment_o/r_7_IC_4'',
        \<lparr>pr_number = 7, event_type = ''comment'', author = ''me'',
         created_at = ''2024-01-01T00:00:01Z'', body = Some ''mine''\<rparr>),
       (''comment_o/r_7_IC_1'',
        \<lparr>pr_number = 7, event_type = ''comment'', author = ''bob'',
         created_at = ''2024-01-01T00:00:01Z'', body = Some ''hello''\<rparr>),
       (''review_o/r_7_PRR_4'',
        \<lparr>pr_number = 7, event_type = ''approved'', author = ''me'',
         created_at = ''2024-01-01T00:00:01Z'', body = Some ''ok''\<rparr>)]"
    by code_simp
  from test_mode_keeps_cutoff_and_ledger[where fromiso = fromiso_ex, THEN conjunct1, THEN mp, OF h3]
  have d: "(\<exists>t. fromiso_ex (replace_Z ''2024-01-01T00:00:01Z'') = Some (Aware t) \<and>
        last_check monitor_test < t) \<and>
   ''comment_o/r_7_IC_4'' \<notin> processed_events monitor_test"
    by simp
  from a b c d show ?thesis by (intro conjI) simp_all
qed

section \<open>Lemmas about cycles that run to their end\<close>














lemma event_id_origins_differ:
  "event_id ''comment'' repo n raw \<noteq> event_id ''review'' repo' n' raw'"
  by (simp add: event_id_def)

lemma review_kind_explicit:
  "review_kind st =
     (if st = ''APPROVED'' then ''approved''
      else if st = ''CHANGES_REQUESTED'' then ''changes_requested'' else ''commented'')"
  by (simp add: review_kind_def)

lemma review_step_classifies:
  assumes "review_step fromiso m repo n r = Inr (Some (eid, ev))"
  shows "(\<exists>raw. r_id r = Some raw \<and> eid = event_id ''review'' repo n raw) \<and>
         (r_state r = Some ''APPROVED'' \<and> event_type ev = ''approved'' \<or>
          r_state r = Some ''CHANGES_REQUESTED'' \<and> event_type ev = ''changes_requested'' \<or>
          r_state r = Some ''COMMENTED'' \<and> event_type ev = ''commented'')"
proof -
  from review_step_SomeD[OF assms] obtain st raw
    where f: "r_state r = Some st" "st \<in> {''APPROVED'', ''CHANGES_REQUESTED'', ''COMMENTED''}"
      "r_id r = Some raw" "eid = event_id ''review'' repo n raw" "event_type ev = review_kind st"
    by force
  from review_kind_cases[OF f(2)] f show ?thesis by metis
qed

text \<open>
  C8. Review states. A review whose state is none of \<open>APPROVED\<close>, \<open>CHANGES_REQUESTED\<close>
  and \<open>COMMENTED\<close> yields no event, whatever the monitor and its mode, and
  \<open>get_pr_comments\<close> returns what it returns when all such reviews are taken out of the
  list; so none of them is flashed. The event that a review yields has the id of that
  review and the kind of its state: \<open>approved\<close>, \<open>changes_requested\<close> or \<open>commented\<close>.
  A review in one of the three states, by an author who passes the filter of the mode,
  dated after the last check and with an id not yet in \<open>processed_events\<close>, does yield
  that event, and \<open>get_pr_comments\<close> returns it when the records before it raise
  nothing. Every returned event is the event of a listed comment, with the id of that
  comment, or the event of a listed review, with the id of that review and the kind of
  its state; the two sorts of id are never equal.
\<close>

theorem review_state_gating:
  "(r_state r = Some st \<and> st \<notin> {''APPROVED'', ''CHANGES_REQUESTED'', ''COMMENTED''} \<longrightarrow>
      review_step fromiso m repo n r = Inr None) \<and>
   (view_reviews env repo n = Decoded (Some rs) \<longrightarrow>
      get_pr_comments fromiso
        (env\<lparr>view_reviews := \<lambda>a b. Decoded (Some (filter
           (\<lambda>r. case r_state r of None \<Rightarrow> True
                 | Some st \<Rightarrow> st \<in> {''APPROVED'', ''CHANGES_REQUESTED'', ''COMMENTED''}) rs))\<rparr>)
        m repo n =
      get_pr_comments fromiso env m repo n) \<and>
   (review_step fromiso m repo n r = Inr (Some (eid, ev)) \<longrightarrow>
      (\<exists>raw. r_id r = Some raw \<and> eid = event_id ''review'' repo n raw) \<and>
      (r_state r = Some ''APPROVED'' \<and> event_type ev = ''approved'' \<or>
       r_state r = Some ''CHANGES_REQUESTED'' \<and> event_type ev = ''changes_requested'' \<or>
       r_state r = Some ''COMMENTED'' \<and> event_type ev = ''commented'')) \<and>
   (r_state r = Some st \<and> st \<in> {''APPROVED'', ''CHANGES_REQUESTED'', ''COMMENTED''} \<and>
    r_submittedAt r = Some ts \<and> fromiso (replace_Z ts) = Some (Aware t) \<and> last_check m < t \<and>
    r_author r = Some (Some a) \<and> (test_mode m \<or> a \<noteq> username m) \<and>
    r_id r = Some raw \<and> event_id ''review'' repo n raw \<notin> processed_events m \<longrightarrow>
      review_step fromiso m repo n r =
        Inr (Some (event_id ''review'' repo n raw,
          \<lparr>pr_number = n,
           event_type = (if st = ''APPROVED'' then ''approved''
                         else if st = ''CHANGES_REQUESTED'' then ''changes_requested''
                         else ''commented''),
           author = a, created_at = ts,
           body = Some (case r_body r of None \<Rightarrow> [] | Some b \<Rightarrow> b)\<rparr>))) \<and>
   (get_pr_comments fromiso env m repo n = (x, events, m') \<and>
    comments_phase fromiso env m repo n = (None, ev0, m0) \<and>
    view_reviews env repo n = Decoded (Some (rpre @ r # rpost)) \<and>
    records_loop (\<lambda>k. review_step fromiso k repo n) rpre (ev0, m0) = (None, ev1, m1) \<and>
    r_state r = Some st \<and> st \<in> {''APPROVED'', ''CHANGES_REQUESTED'', ''COMMENTED''} \<and>
    r_submittedAt r = Some ts \<and> fromiso (replace_Z ts) = Some (Aware t) \<and> last_check m < t \<and>
    r_author r = Some (Some a) \<and> (test_mode m \<or> a \<noteq> username m) \<and>
    r_id r = Some raw \<and> event_id ''review'' repo n raw \<notin> processed_events m1 \<longrightarrow>
      (event_id ''review'' repo n raw,
       \<lparr>pr_number = n,
        event_type = (if st = ''APPROVED'' then ''approved''
                      else if st = ''CHANGES_REQUESTED'' then ''changes_requested''
                      else ''commented''),
        author = a, created_at = ts,
        body = Some (case r_body r of None \<Rightarrow> [] | Some b \<Rightarrow> b)\<rparr>) \<in> set events) \<and>
   (get_pr_comments fromiso env m repo n = (x, events, m') \<and> (eid, ev) \<in> set events \<longrightarrow>
      (\<exists>cs c craw. view_comments env repo n = Decoded (Some cs) \<and> c \<in> set cs \<and>
         c_id c = Some craw \<and> eid = event_id ''comment'' repo n craw \<and>
         event_type ev = ''comment'') \<or>
      (\<exists>rs q qraw. view_reviews env repo n = Decoded (Some rs) \<and> q \<in> set rs \<and>
         r_id q = Some qraw \<and> eid = event_id ''review'' repo n qraw \<and>
         (r_state q = Some ''APPROVED'' \<and> event_type ev = ''approved'' \<or>
          r_state q = Some ''CHANGES_REQUESTED'' \<and> event_type ev = ''changes_requested'' \<or>
          r_state q = Some ''COMMENTED'' \<and> event_type ev = ''commented''))) \<and>
   event_id ''comment'' repo n raw1 \<noteq> event_id ''review'' repo n raw2"
proof (intro conjI impI)
  assume "r_state r = Some st \<and> st \<notin> {''APPROVED'', ''CHANGES_REQUESTED'', ''COMMENTED''}"
  then show "review_step fromiso m repo n r = Inr None"
    using review_step_unrecognised by blast
next
  let ?keep = "\<lambda>r. case r_state r of None \<Rightarrow> True
                 | Some st \<Rightarrow> st \<in> {''APPROVED'', ''CHANGES_REQUESTED'', ''COMMENTED''}"
  let ?env = "env\<lparr>view_reviews := \<lambda>a b. Decoded (Some (filter ?keep rs))\<rparr>"
  assume v: "view_reviews env repo n = Decoded (Some rs)"
  have drop: "\<forall>k r. \<not> ?keep r \<longrightarrow> review_step fromiso k repo n r = Inr None"
    by (auto split: option.splits intro: review_step_unrecognised)
  have c: "comments_phase fromiso ?env m repo n = comments_phase fromiso env m repo n"
    by (simp add: comments_phase_def)
  have r: "reviews_phase fromiso ?env repo n (e1, m1) = reviews_phase fromiso env repo n (e1, m1)"
    for e1 m1
    using v records_loop_filter[OF drop, of rs e1 m1] by (simp add: reviews_phase_def)
  have "try_block fromiso ?env m repo n = try_block fromiso env m repo n"
    unfolding try_block_def c by (auto split: prod.splits option.splits simp: r)
  then show "get_pr_comments fromiso ?env m repo n = get_pr_comments fromiso env m repo n"
    by (simp add: get_pr_comments_def)
next
  assume s: "review_step fromiso m repo n r = Inr (Some (eid, ev))"
  from review_step_classifies[OF s]
  show "\<exists>raw. r_id r = Some raw \<and> eid = event_id ''review'' repo n raw" by blast
  from review_step_classifies[OF s]
  show "r_state r = Some ''APPROVED'' \<and> event_type ev = ''approved'' \<or>
       r_state r = Some ''CHANGES_REQUESTED'' \<and> event_type ev = ''changes_requested'' \<or>
       r_state r = Some ''COMMENTED'' \<and> event_type ev = ''commented''" by blast
next
  assume a: "r_state r = Some st \<and> st \<in> {''APPROVED'', ''CHANGES_REQUESTED'', ''COMMENTED''} \<and>
    r_submittedAt r = Some ts \<and> fromiso (replace_Z ts) = Some (Aware t) \<and> last_check m < t \<and>
    r_author r = Some (Some a) \<and> (test_mode m \<or> a \<noteq> username m) \<and>
    r_id r = Some raw \<and> event_id ''review'' repo n raw \<notin> processed_events m"
  have "review_step fromiso m repo n r =
    Inr (Some (event_id ''review'' repo n raw,
      \<lparr>pr_number = n, event_type = review_kind st, author = a, created_at = ts,
       body = Some (case r_body r of None \<Rightarrow> [] | Some b \<Rightarrow> b)\<rparr>))"
    by (rule review_step_SomeI[where t = t]) (use a in blast)+
  then show "review_step fromiso m repo n r =
        Inr (Some (event_id ''review'' repo n raw,
          \<lparr>pr_number = n,
           event_type = (if st = ''APPROVED'' then ''approved''
                         else if st = ''CHANGES_REQUESTED'' then ''changes_requested''
                         else ''commented''),
           author = a, created_at = ts,
           body = Some (case r_body r of None \<Rightarrow> [] | Some b \<Rightarrow> b)\<rparr>))"
    unfolding review_kind_explicit .
next
  assume a: "get_pr_comments fromiso env m repo n = (x, events, m') \<and>
    comments_phase fromiso env m repo n = (None, ev0, m0) \<and>
    view_reviews env repo n = Decoded (Some (rpre @ r # rpost)) \<and>
    records_loop (\<lambda>k. review_step fromiso k repo n) rpre (ev0, m0) = (None, ev1, m1) \<and>
    r_state r = Some st \<and> st \<in> {''APPROVED'', ''CHANGES_REQUESTED'', ''COMMENTED''} \<and>
    r_submittedAt r = Some ts \<and> fromiso (replace_Z ts) = Some (Aware t) \<and> last_check m < t \<and>
    r_author r = Some (Some a) \<and> (test_mode m \<or> a \<noteq> username m) \<and>
    r_id r = Some raw \<and> event_id ''review'' repo n raw \<notin> processed_events m1"
  have "(event_id ''review'' repo n raw,
           \<lparr>pr_number = n, event_type = review_kind st, author = a, created_at = ts,
            body = Some (case r_body r of None \<Rightarrow> [] | Some b \<Rightarrow> b)\<rparr>) \<in> set events"
  proof (rule get_pr_comments_yields_review)
    show "get_pr_comments fromiso env m repo n = (x, events, m')" using a by blast
    show "comments_phase fromiso env m repo n = (None, ev0, m0)" using a by blast
    show "view_reviews env repo n = Decoded (Some (rpre @ r # rpost))" using a by blast
    show "records_loop (\<lambda>k. review_step fromiso k repo n) rpre (ev0, m0) = (None, ev1, m1)"
      using a by blast
    show "r_state r = Some st" using a by blast
    show "st \<in> {''APPROVED'', ''CHANGES_REQUESTED'', ''COMMENTED''}" using a by blast
    show "r_submittedAt r = Some ts" using a by blast
    show "fromiso (replace_Z ts) = Some (Aware t)" using a by blast
    show "last_check m < t" using a by blast
    show "r_author r = Some (Some a)" using a by blast
    show "test_mode m \<or> a \<noteq> username m" using a by blast
    show "r_id r = Some raw" using a by blast
    show "event_id ''review'' repo n raw \<notin> processed_events m1" using a by blast
  qed
  then show "(event_id ''review'' repo n raw,
       \<lparr>pr_number = n,
        event_type = (if st = ''APPROVED'' then ''approved''
                      else if st = ''CHANGES_REQUESTED'' then ''changes_requested''
                      else ''commented''),
        author = a, created_at = ts,
        body = Some (case r_body r of None \<Rightarrow> [] | Some b \<Rightarrow> b)\<rparr>) \<in> set events"
    unfolding review_kind_explicit .
next
  assume a: "get_pr_comments fromiso env m repo n = (x, events, m') \<and> (eid, ev) \<in> set events"
  then have g: "get_pr_comments fromiso env m repo n = (x, events, m')"
    and t: "(eid, ev) \<in> set events" by blast+
  from get_pr_comments_events[OF g t]
  consider (c) cs c craw where "view_comments env repo n = Decoded (Some cs)" "c \<in> set cs"
        "c_id c = Some craw" "eid = event_id ''comment'' repo n craw" "event_type ev = ''comment''"
    | (r) rs q qraw st where "view_reviews env repo n = Decoded (Some rs)" "q \<in> set rs"
        "r_id q = Some qraw" "eid = event_id ''review'' repo n qraw"
        "r_state q = Some st" "st \<in> {''APPROVED'', ''CHANGES_REQUESTED'', ''COMMENTED''}"
        "event_type ev = review_kind st"
    by blast
  then show "(\<exists>cs c craw. view_comments env repo n = Decoded (Some cs) \<and> c \<in> set cs \<and>
         c_id c = Some craw \<and> eid = event_id ''comment'' repo n craw \<and>
         event_type ev = ''comment'') \<or>
      (\<exists>rs q qraw. view_reviews env repo n = Decoded (Some rs) \<and> q \<in> set rs \<and>
         r_id q = Some qraw \<and> eid = event_id ''review'' repo n qraw \<and>
         (r_state q = Some ''APPROVED'' \<and> event_type ev = ''approved'' \<or>
          r_state q = Some ''CHANGES_REQUESTED'' \<and> event_type ev = ''changes_requested'' \<or>
          r_state q = Some ''COMMENTED'' \<and> event_type ev = ''commented''))"
  proof cases
    case c
    then show ?thesis by blast
  next
    case r
    from review_kind_cases[OF r(6)] r(5,7)
    have "r_state q = Some ''APPROVED'' \<and> event_type ev = ''approved'' \<or>
          r_state q = Some ''CHANGES_REQUESTED'' \<and> event_type ev = ''changes_requested'' \<or>
          r_state q = Some ''COMMENTED'' \<and> event_type ev = ''commented''"
      by metis
    with r(1-4) show ?thesis by blast
  qed
next
  show "event_id ''comment'' repo n raw1 \<noteq> event_id ''review'' repo n raw2"
    by (rule event_id_origins_differ)
qed

theorem review_state_gating_witness:
  "review_step fromiso_ex monitor_ex ''o/r'' 7 review_dismissed = Inr None \<and>
   review_step fromiso_ex monitor_test ''o/r'' 7 review_dismissed = Inr None \<and>
   get_pr_comments fromiso_ex
     (env_reviews\<lparr>view_reviews := \<lambda>a b. Decoded (Some (filter
        (\<lambda>r. case r_state r of None \<Rightarrow> True
              | Some st \<Rightarrow> st \<in> {''APPROVED'', ''CHANGES_REQUESTED'', ''COMMENTED''}) reviews_ex))\<rparr>)
     monitor_ex ''o/r'' 7 =
   get_pr_comments fromiso_ex env_reviews monitor_ex ''o/r'' 7 \<and>
   review_step fromiso_ex monitor_ex ''o/r'' 7 (review_of ''CHANGES_REQUESTED'' ''PRR_7'') =
     Inr (Some (''review_o/r_7_PRR_7'',
       \<lparr>pr_number = 7, event_type = ''changes_requested'', author = ''bob'',
        created_at = ''2024-01-01T00:00:01Z'', body = Some ''''\<rparr>)) \<and>
   map (\<lambda>t. (fst t, event_type (snd t)))
     (fst (snd (get_pr_comments fromiso_ex env_reviews monitor_ex ''o/r'' 7))) =
   [(''review_o/r_7_PRR_6'', ''approved''), (''review_o/r_7_PRR_7'', ''changes_requested''),
    (''review_o/r_7_PRR_8'', ''commented'')] \<and>
   map (\<lambda>t. (fst t, event_type (snd t)))
     (fst (snd (get_pr_comments fromiso_ex env_reviews monitor_test ''o/r'' 7))) =
   [(''review_o/r_7_PRR_6'', ''approved''), (''review_o/r_7_PRR_7'', ''changes_requested''),
    (''review_o/r_7_PRR_8'', ''commented'')]"
proof -
  note th = review_state_gating[where fromiso = fromiso_ex and repo = "''o/r''" and n = 7]
  have s: "r_state review_dismissed = Some ''DISMISSED'' \<and>
    ''DISMISSED'' \<notin> {''APPROVED'', ''CHANGES_REQUESTED'', ''COMMENTED''}"
    by (simp add: review_dismissed_def)
  have a: "review_step fromiso_ex monitor_ex ''o/r'' 7 review_dismissed = Inr None"
    by (rule th[THEN conjunct1, THEN mp, OF s])
  have b: "review_step fromiso_ex monitor_test ''o/r'' 7 review_dismissed = Inr None"
    by (rule th[THEN conjunct1, THEN mp, OF s])
  have v: "view_reviews env_reviews ''o/r'' 7 = Decoded (Some reviews_ex)"
    by (simp add: env_reviews_def env_of_def)
  have c: "get_pr_comments fromiso_ex
     (env_reviews\<lparr>view_reviews := \<lambda>a b. Decoded (Some (filter
        (\<lambda>r. case r_state r of None \<Rightarrow> True
              | Some st \<Rightarrow> st \<in> {''APPROVED'', ''CHANGES_REQUESTED'', ''COMMENTED''}) reviews_ex))\<rparr>)
     monitor_ex ''o/r'' 7 =
   get_pr_comments fromiso_ex env_reviews monitor_ex ''o/r'' 7"
    by (rule th[THEN conjunct2, THEN conjunct1, THEN mp, OF v])
  have h: "r_state (review_of ''CHANGES_REQUESTED'' ''PRR_7'') = Some ''CHANGES_REQUESTED'' \<and>
    ''CHANGES_REQUESTED'' \<in> {''APPROVED'', ''CHANGES_REQUESTED'', ''COMMENTED''} \<and>
    r_submittedAt (review_of ''CHANGES_REQUESTED'' ''PRR_7'') = Some ''2024-01-01T00:00:01Z'' \<and>
    fromiso_ex (replace_Z ''2024-01-01T00:00:01Z'') = Some (Aware 1704067201000000) \<and>
    last_check monitor_ex < 1704067201000000 \<and>
    r_author (review_of ''CHANGES_REQUESTED'' ''PRR_7'') = Some (Some ''bob'') \<and>
    (test_mode monitor_ex \<or> ''bob'' \<noteq> username monitor_ex) \<and>
    r_id (review_of ''CHANGES_REQUESTED'' ''PRR_7'') = Some ''PRR_7'' \<and>
    event_id ''review'' ''o/r'' 7 ''PRR_7'' \<notin> processed_events monitor_ex"
    by code_simp
  have e: "event_id ''review'' ''o/r'' 7 ''PRR_7'' = ''review_o/r_7_PRR_7''"
    by code_simp
  have bd: "r_body (review_of ''CHANGES_REQUESTED'' ''PRR_7'') = Some ''''"
    by (simp add: review_of_def)
  from th[THEN conjunct2, THEN conjunct2, THEN conjunct2, THEN conjunct1, THEN mp, OF h]
  have d: "review_step fromiso_ex monitor_ex ''o/r'' 7 (review_of ''CHANGES_REQUESTED'' ''PRR_7'') =
     Inr (Some (''review_o/r_7_PRR_7'',
       \<lparr>pr_number = 7, event_type = ''changes_requested'', author = ''bob'',
        created_at = ''2024-01-01T00:00:01Z'', body = Some ''''\<rparr>))"
    unfolding e bd by simp
  have f: "map (\<lambda>t. (fst t, event_type (snd t)))
     (fst (snd (get_pr_comments fromiso_ex env_reviews monitor_ex ''o/r'' 7))) =
   [(''review_o/r_7_PRR_6'', ''approved''), (''review_o/r_7_PRR_7'', ''changes_requested''),
    (''review_o/r_7_PRR_8'', ''commented'')]"
    by code_simp
  have g: "map (\<lambda>t. (fst t, event_type (snd t)))
     (fst (snd (get_pr_comments fromiso_ex env_reviews monitor_test ''o/r'' 7))) =
   [(''review_o/r_7_PRR_6'', ''approved''), (''review_o/r_7_PRR_7'', ''changes_requested''),
    (''review_o/r_7_PRR_8'', ''commented'')]"
    by code_simp
  from a b c d f g show ?thesis by (intro conjI)
qed

section \<open>Lemmas about cycles that an exception leaves\<close>










end
